theory Spec2Isabelle
  imports Main "HOL-Library.Word"
begin

unbundle bit_operations_syntax

section \<open>Post-quantum keys and signatures (crypto/pq/pq_keys.h, pq_keys.cpp)\<close>

type_synonym byte = "8 word"
type_synonym bytes = "byte list"

text \<open>
  \<^verbatim>\<open>enum class PQAlgorithm { DILITHIUM3, FALCON512, UNKNOWN }\<close> has the implicit underlying
  type \<^verbatim>\<open>int\<close>; \<^verbatim>\<open>static_cast<PQAlgorithm>(b)\<close> of a byte \<open>b\<close> yields the value \<open>b\<close> whether or
  not an enumerator has it, so the type is modelled by its underlying integers.
\<close>

type_synonym PQAlgorithm = int

definition DILITHIUM3 :: PQAlgorithm where "DILITHIUM3 = 0"
definition FALCON512 :: PQAlgorithm where "FALCON512 = 1"
definition UNKNOWN :: PQAlgorithm where "UNKNOWN = 2"

text \<open>
  liboqs is an external library: its algorithm names, the lengths stored in an
  \<^verbatim>\<open>OQS_SIG\<close> object and the outcomes of its calls are parameters of the model.
  \<open>sig_new n\<close> tells whether \<^verbatim>\<open>OQS_SIG_new\<close> returns a non-null object; \<open>sig_sign\<close> and
  \<open>sig_keypair\<close> return \<open>None\<close> when the status is not \<^verbatim>\<open>OQS_SUCCESS\<close>.
\<close>

datatype oqs_alg = OQS_SIG_alg_dilithium_3 | OQS_SIG_alg_falcon_512

record oqs =
  sig_new :: "oqs_alg \<Rightarrow> bool"
  length_public_key :: "oqs_alg \<Rightarrow> nat"
  length_secret_key :: "oqs_alg \<Rightarrow> nat"
  length_signature :: "oqs_alg \<Rightarrow> nat"
  sig_keypair :: "oqs_alg \<Rightarrow> (bytes \<times> bytes) option"
  sig_sign :: "oqs_alg \<Rightarrow> bytes \<Rightarrow> bytes \<Rightarrow> bytes option"
  sig_verify :: "oqs_alg \<Rightarrow> bytes \<Rightarrow> bytes \<Rightarrow> bytes \<Rightarrow> bool"

definition GetOQSAlgorithmName :: "PQAlgorithm \<Rightarrow> oqs_alg option" where
  "GetOQSAlgorithmName algo =
     (if algo = DILITHIUM3 then Some OQS_SIG_alg_dilithium_3
      else if algo = FALCON512 then Some OQS_SIG_alg_falcon_512
      else None)"

text \<open>A \<^verbatim>\<open>std::vector\<close> of \<open>n\<close> zero bytes into which the library writes its output.\<close>

definition buffer :: "nat \<Rightarrow> bytes \<Rightarrow> bytes" where
  "buffer n out = take n (out @ replicate n 0)"

subsection \<open>PQPubKey\<close>

record PQPubKey =
  pk_data :: bytes
  pk_algorithm :: PQAlgorithm

definition PQPubKey_default :: PQPubKey where
  "PQPubKey_default = \<lparr>pk_data = [], pk_algorithm = UNKNOWN\<rparr>"

definition GetPubKeySize :: "oqs \<Rightarrow> PQAlgorithm \<Rightarrow> nat" where
  "GetPubKeySize lib algo =
     (case GetOQSAlgorithmName algo of
        None \<Rightarrow> 0
      | Some alg_name \<Rightarrow> if \<not> sig_new lib alg_name then 0 else length_public_key lib alg_name)"

definition PQPubKey_IsValid :: "oqs \<Rightarrow> PQPubKey \<Rightarrow> bool" where
  "PQPubKey_IsValid lib k =
     (if pk_algorithm k = UNKNOWN then False
      else (let expected_size = GetPubKeySize lib (pk_algorithm k)
            in expected_size > 0 \<and> length (pk_data k) = expected_size))"

definition PQPubKey_new :: "oqs \<Rightarrow> bytes \<Rightarrow> PQAlgorithm \<Rightarrow> PQPubKey" where
  "PQPubKey_new lib data algo =
     (let k = \<lparr>pk_data = data, pk_algorithm = algo\<rparr>
      in if \<not> PQPubKey_IsValid lib k then \<lparr>pk_data = [], pk_algorithm = UNKNOWN\<rparr> else k)"

definition PQPubKey_Serialize :: "PQPubKey \<Rightarrow> bytes" where
  "PQPubKey_Serialize k = word_of_int (pk_algorithm k) # pk_data k"

definition PQPubKey_Deserialize :: "oqs \<Rightarrow> bytes \<Rightarrow> PQPubKey" where
  "PQPubKey_Deserialize lib data =
     (if data = [] then PQPubKey_default
      else (let algo = uint (data ! 0)
            in if algo = UNKNOWN then PQPubKey_default
               else PQPubKey_new lib (drop 1 data) algo))"

subsection \<open>PQPrivKey\<close>

text \<open>
  \<open>sk_sig_ctx\<close> is the \<^verbatim>\<open>std::unique_ptr<OQS_SIG> m_sig_ctx\<close>: \<open>None\<close> is the null pointer.
\<close>

record PQPrivKey =
  sk_data :: bytes
  sk_algorithm :: PQAlgorithm
  sk_sig_ctx :: "oqs_alg option"

definition PQPrivKey_default :: PQPrivKey where
  "PQPrivKey_default = \<lparr>sk_data = [], sk_algorithm = UNKNOWN, sk_sig_ctx = None\<rparr>"

definition GetPrivKeySize :: "oqs \<Rightarrow> PQAlgorithm \<Rightarrow> nat" where
  "GetPrivKeySize lib algo =
     (case GetOQSAlgorithmName algo of
        None \<Rightarrow> 0
      | Some alg_name \<Rightarrow> if \<not> sig_new lib alg_name then 0 else length_secret_key lib alg_name)"

definition PQPrivKey_IsValid :: "oqs \<Rightarrow> PQPrivKey \<Rightarrow> bool" where
  "PQPrivKey_IsValid lib k =
     (if sk_algorithm k = UNKNOWN then False
      else (let expected_size = GetPrivKeySize lib (sk_algorithm k)
            in expected_size > 0 \<and> length (sk_data k) = expected_size))"

text \<open>
  \<^verbatim>\<open>Clear\<close>: the data is wiped and cleared when it is not empty, the algorithm becomes
  \<^verbatim>\<open>UNKNOWN\<close> and the context is reset.
\<close>

definition PQPrivKey_Clear :: "PQPrivKey \<Rightarrow> PQPrivKey" where
  "PQPrivKey_Clear k =
     (let k1 = (if sk_data k \<noteq> [] then k\<lparr>sk_data := []\<rparr> else k)
      in k1\<lparr>sk_algorithm := UNKNOWN, sk_sig_ctx := None\<rparr>)"

definition PQPrivKey_new :: "oqs \<Rightarrow> bytes \<Rightarrow> PQAlgorithm \<Rightarrow> PQPrivKey" where
  "PQPrivKey_new lib data algo =
     (let k = \<lparr>sk_data = data, sk_algorithm = algo, sk_sig_ctx = None\<rparr>
      in if \<not> PQPrivKey_IsValid lib k then PQPrivKey_Clear k else k)"

text \<open>
  The move constructor returns the new object and the moved-from one. A moved-from
  \<^verbatim>\<open>std::vector\<close> and a moved-from \<^verbatim>\<open>std::unique_ptr\<close> are empty.
\<close>

definition PQPrivKey_move_construct :: "PQPrivKey \<Rightarrow> PQPrivKey \<times> PQPrivKey" where
  "PQPrivKey_move_construct other =
     (\<lparr>sk_data = sk_data other, sk_algorithm = sk_algorithm other, sk_sig_ctx = sk_sig_ctx other\<rparr>,
      \<lparr>sk_data = [], sk_algorithm = UNKNOWN, sk_sig_ctx = None\<rparr>)"

text \<open>
  Move assignment works on two objects that may be the same one (\<^verbatim>\<open>this != &other\<close>), so
  the objects live in a store indexed by address.
\<close>

type_synonym addr = nat
type_synonym privkey_store = "addr \<Rightarrow> PQPrivKey"

definition PQPrivKey_move_assign :: "privkey_store \<Rightarrow> addr \<Rightarrow> addr \<Rightarrow> privkey_store" where
  "PQPrivKey_move_assign st this other =
     (if this \<noteq> other then
        (let st1 = st(this := PQPrivKey_Clear (st this));
             st2 = st1(this := (st1 this)\<lparr>sk_data := sk_data (st1 other)\<rparr>,
                       other := (st1 other)\<lparr>sk_data := []\<rparr>);
             st3 = st2(this := (st2 this)\<lparr>sk_algorithm := sk_algorithm (st2 other)\<rparr>);
             st4 = st3(this := (st3 this)\<lparr>sk_sig_ctx := sk_sig_ctx (st3 other)\<rparr>,
                       other := (st3 other)\<lparr>sk_sig_ctx := None\<rparr>)
         in st4(other := (st4 other)\<lparr>sk_algorithm := UNKNOWN\<rparr>))
      else st)"

definition PQPrivKey_GetPubKey :: "oqs \<Rightarrow> PQPrivKey \<Rightarrow> PQPubKey" where
  "PQPrivKey_GetPubKey lib k =
     (if \<not> PQPrivKey_IsValid lib k then PQPubKey_default
      else case GetOQSAlgorithmName (sk_algorithm k) of
        None \<Rightarrow> PQPubKey_default
      | Some alg_name \<Rightarrow>
          if \<not> sig_new lib alg_name then PQPubKey_default
          else (let n = length_public_key lib alg_name;
                    pubkey_data = (if length (sk_data k) \<ge> n
                                   then drop (length (sk_data k) - n) (sk_data k)
                                   else replicate n 0)
                in PQPubKey_new lib pubkey_data (sk_algorithm k)))"

definition PQPrivKey_Sign :: "oqs \<Rightarrow> PQPrivKey \<Rightarrow> bytes \<Rightarrow> bytes" where
  "PQPrivKey_Sign lib k hash =
     (if \<not> PQPrivKey_IsValid lib k then []
      else case GetOQSAlgorithmName (sk_algorithm k) of
        None \<Rightarrow> []
      | Some alg_name \<Rightarrow>
          if \<not> sig_new lib alg_name then []
          else (case sig_sign lib alg_name hash (sk_data k) of
                  None \<Rightarrow> []
                | Some signature \<Rightarrow> signature))"

definition GenerateKeyPair :: "oqs \<Rightarrow> PQAlgorithm \<Rightarrow> PQPrivKey \<times> PQPubKey" where
  "GenerateKeyPair lib algo =
     (case GetOQSAlgorithmName algo of
        None \<Rightarrow> (PQPrivKey_default, PQPubKey_default)
      | Some alg_name \<Rightarrow>
          if \<not> sig_new lib alg_name then (PQPrivKey_default, PQPubKey_default)
          else (case sig_keypair lib alg_name of
                  None \<Rightarrow> (PQPrivKey_default, PQPubKey_default)
                | Some (pk, sk) \<Rightarrow>
                    (PQPrivKey_new lib (buffer (length_secret_key lib alg_name) sk) algo,
                     PQPubKey_new lib (buffer (length_public_key lib alg_name) pk) algo)))"

subsection \<open>PQSignature\<close>

record PQSignature =
  sig_data :: bytes
  sig_algorithm :: PQAlgorithm

definition PQSignature_default :: PQSignature where
  "PQSignature_default = \<lparr>sig_data = [], sig_algorithm = UNKNOWN\<rparr>"

definition GetSignatureSize :: "oqs \<Rightarrow> PQAlgorithm \<Rightarrow> nat" where
  "GetSignatureSize lib algo =
     (case GetOQSAlgorithmName algo of
        None \<Rightarrow> 0
      | Some alg_name \<Rightarrow> if \<not> sig_new lib alg_name then 0 else length_signature lib alg_name)"

definition PQSignature_IsValid :: "oqs \<Rightarrow> PQSignature \<Rightarrow> bool" where
  "PQSignature_IsValid lib s =
     (if sig_algorithm s = UNKNOWN then False
      else if sig_data s = [] then False
      else (let max_size = GetSignatureSize lib (sig_algorithm s)
            in max_size > 0 \<and> length (sig_data s) \<le> max_size))"

definition PQSignature_new :: "oqs \<Rightarrow> bytes \<Rightarrow> PQAlgorithm \<Rightarrow> PQSignature" where
  "PQSignature_new lib data algo =
     (let s = \<lparr>sig_data = data, sig_algorithm = algo\<rparr>
      in if \<not> PQSignature_IsValid lib s then \<lparr>sig_data = [], sig_algorithm = UNKNOWN\<rparr> else s)"

definition PQSignature_Verify :: "oqs \<Rightarrow> PQSignature \<Rightarrow> bytes \<Rightarrow> PQPubKey \<Rightarrow> bool" where
  "PQSignature_Verify lib s hash pubkey =
     (if \<not> PQSignature_IsValid lib s \<or> \<not> PQPubKey_IsValid lib pubkey then False
      else if sig_algorithm s \<noteq> pk_algorithm pubkey then False
      else case GetOQSAlgorithmName (sig_algorithm s) of
        None \<Rightarrow> False
      | Some alg_name \<Rightarrow>
          if \<not> sig_new lib alg_name then False
          else sig_verify lib alg_name hash (sig_data s) (pk_data pubkey))"

text \<open>
  \<^verbatim>\<open>Serialize\<close>: the algorithm byte, the length as \<^verbatim>\<open>uint32_t\<close> in little-endian order,
  the data.
\<close>

definition PQSignature_Serialize :: "PQSignature \<Rightarrow> bytes" where
  "PQSignature_Serialize s =
     (let sig_len = (word_of_nat (length (sig_data s)) :: 32 word)
      in [word_of_int (sig_algorithm s),
          ucast (sig_len AND 0xFF),
          ucast (drop_bit 8 sig_len AND 0xFF),
          ucast (drop_bit 16 sig_len AND 0xFF),
          ucast (drop_bit 24 sig_len AND 0xFF)] @ sig_data s)"

text \<open>
  \<^verbatim>\<open>Deserialize\<close>: \<open>sig_len\<close> is a \<^verbatim>\<open>uint32_t\<close> and \<^verbatim>\<open>5 + sig_len\<close> is computed in 32 bits
  (it wraps) before it is compared with the \<^verbatim>\<open>size_t\<close> size of the vector.
\<close>

definition PQSignature_Deserialize :: "oqs \<Rightarrow> bytes \<Rightarrow> PQSignature" where
  "PQSignature_Deserialize lib data =
     (if length data < 5 then PQSignature_default
      else (let algo = uint (data ! 0)
            in if algo = UNKNOWN then PQSignature_default
               else (let sig_len = (ucast (data ! 1) OR push_bit 8 (ucast (data ! 2))
                                    OR push_bit 16 (ucast (data ! 3))
                                    OR push_bit 24 (ucast (data ! 4)) :: 32 word)
                     in if length data \<noteq> unat (5 + sig_len) then PQSignature_default
                        else PQSignature_new lib (drop 5 data) algo)))"

text \<open>
  A liboqs instance used to run the model on concrete inputs: both algorithms are
  enabled, the lengths are those of Dilithium3 and Falcon-512, key generation and signing
  write zero bytes and verification accepts every input.
\<close>

definition oqs_accepting :: oqs where
  "oqs_accepting =
     \<lparr>sig_new = (\<lambda>_. True),
      length_public_key = (\<lambda>n. case n of OQS_SIG_alg_dilithium_3 \<Rightarrow> 1952 | OQS_SIG_alg_falcon_512 \<Rightarrow> 897),
      length_secret_key = (\<lambda>n. case n of OQS_SIG_alg_dilithium_3 \<Rightarrow> 4000 | OQS_SIG_alg_falcon_512 \<Rightarrow> 1281),
      length_signature = (\<lambda>n. case n of OQS_SIG_alg_dilithium_3 \<Rightarrow> 3293 | OQS_SIG_alg_falcon_512 \<Rightarrow> 666),
      sig_keypair = (\<lambda>_. Some ([], [])),
      sig_sign = (\<lambda>_ _ _. Some [0]),
      sig_verify = (\<lambda>_ _ _ _. True)\<rparr>"

text \<open>
  A liboqs instance that keeps the contract of key generation, signing and verification:
  the lengths are those of Dilithium3 and Falcon-512, the generated public key is made of
  bytes 1 and the secret key of bytes 2 (so the secret key does not end with the public
  key), digests of up to 64 bytes are signed, under the generated secret key only, and
  verification accepts exactly the digest that was signed, the signature that signing
  made and the generated public key.
\<close>

definition oqs_keyed :: oqs where
  "oqs_keyed =
     \<lparr>sig_new = (\<lambda>_. True),
      length_public_key = (\<lambda>n. case n of OQS_SIG_alg_dilithium_3 \<Rightarrow> 1952 | OQS_SIG_alg_falcon_512 \<Rightarrow> 897),
      length_secret_key = (\<lambda>n. case n of OQS_SIG_alg_dilithium_3 \<Rightarrow> 4000 | OQS_SIG_alg_falcon_512 \<Rightarrow> 1281),
      length_signature = (\<lambda>n. case n of OQS_SIG_alg_dilithium_3 \<Rightarrow> 3293 | OQS_SIG_alg_falcon_512 \<Rightarrow> 666),
      sig_keypair = (\<lambda>n. case n of
                        OQS_SIG_alg_dilithium_3 \<Rightarrow> Some (replicate 1952 1, replicate 4000 2)
                      | OQS_SIG_alg_falcon_512 \<Rightarrow> Some (replicate 897 1, replicate 1281 2)),
      sig_sign = (\<lambda>n hash sk.
                    if sk = (case n of OQS_SIG_alg_dilithium_3 \<Rightarrow> replicate 4000 2
                             | OQS_SIG_alg_falcon_512 \<Rightarrow> replicate 1281 2)
                       \<and> length hash \<le> 64
                    then Some (3 # hash) else None),
      sig_verify = (\<lambda>n hash signature pk.
                      pk = (case n of OQS_SIG_alg_dilithium_3 \<Rightarrow> replicate 1952 1
                            | OQS_SIG_alg_falcon_512 \<Rightarrow> replicate 897 1)
                      \<and> length hash \<le> 64 \<and> signature = 3 # hash)\<rparr>"

text \<open>
  The steps of \<^verbatim>\<open>pq_signature_test\<close> run on \<open>oqs_keyed\<close>: the message, the generated key
  pair, and the signature object built from what the private key signs.
\<close>

definition test_message :: bytes where
  "test_message = [0x01, 0x02, 0x03, 0x04]"

definition test_privkey :: "PQAlgorithm \<Rightarrow> PQPrivKey" where
  "test_privkey algo = fst (GenerateKeyPair oqs_keyed algo)"

definition test_pubkey :: "PQAlgorithm \<Rightarrow> PQPubKey" where
  "test_pubkey algo = snd (GenerateKeyPair oqs_keyed algo)"

definition test_signature :: "PQAlgorithm \<Rightarrow> PQSignature" where
  "test_signature algo =
     PQSignature_new oqs_keyed (PQPrivKey_Sign oqs_keyed (test_privkey algo) test_message) algo"

subsection \<open>Notions used by the properties\<close>

text \<open>The little-endian value of the four bytes after the algorithm tag.\<close>

definition length_prefix :: "bytes \<Rightarrow> nat" where
  "length_prefix data = unat (data ! 1) + 256 * unat (data ! 2) + 65536 * unat (data ! 3)
                          + 16777216 * unat (data ! 4)"

definition unknown_tag :: "bytes \<Rightarrow> bool" where
  "unknown_tag data = (uint (data ! 0) \<noteq> DILITHIUM3 \<and> uint (data ! 0) \<noteq> FALCON512)"

definition malformed_signature :: "bytes \<Rightarrow> bool" where
  "malformed_signature data =
     (length data < 5 \<or> unknown_tag data \<or> length data \<noteq> 5 + length_prefix data)"

text \<open>
  The invariant of key and signature objects: valid with the length the algorithm asks
  for, or the canonical invalid object.
\<close>

definition pk_invariant :: "oqs \<Rightarrow> PQPubKey \<Rightarrow> bool" where
  "pk_invariant lib k =
     (PQPubKey_IsValid lib k
        \<and> (case GetOQSAlgorithmName (pk_algorithm k) of
              None \<Rightarrow> False
            | Some alg_name \<Rightarrow> length (pk_data k) = length_public_key lib alg_name)
      \<or> k = PQPubKey_default \<and> \<not> PQPubKey_IsValid lib k)"

definition sig_invariant :: "oqs \<Rightarrow> PQSignature \<Rightarrow> bool" where
  "sig_invariant lib s =
     (PQSignature_IsValid lib s
        \<and> (case GetOQSAlgorithmName (sig_algorithm s) of
              None \<Rightarrow> False
            | Some alg_name \<Rightarrow> sig_data s \<noteq> [] \<and> length (sig_data s) \<le> length_signature lib alg_name)
      \<or> s = PQSignature_default \<and> \<not> PQSignature_IsValid lib s)"

text \<open>The canonical invalid state of a private key, observed through \<^verbatim>\<open>Sign\<close> on \<open>hash\<close>.\<close>

definition canonical_invalid :: "oqs \<Rightarrow> PQPrivKey \<Rightarrow> bytes \<Rightarrow> bool" where
  "canonical_invalid lib k hash =
     (sk_algorithm k = UNKNOWN \<and> sk_data k = [] \<and> \<not> PQPrivKey_IsValid lib k
      \<and> PQPrivKey_Sign lib k hash = [])"

definition example_privkey :: PQPrivKey where
  "example_privkey = \<lparr>sk_data = replicate 1281 1, sk_algorithm = FALCON512, sk_sig_ctx = None\<rparr>"

section \<open>Bech32m and bit-group conversion (bech32.cpp, util/strencodings.h)\<close>

text \<open>
  Modelled from the spec: \<^verbatim>\<open>bech32::Encode\<close>, \<^verbatim>\<open>bech32::Decode\<close> and \<^verbatim>\<open>ConvertBits\<close> are
  called by \<^verbatim>\<open>EBCAddress::ToString\<close> and \<^verbatim>\<open>EBCAddress::FromString\<close>, but \<^verbatim>\<open>bech32.cpp\<close> and
  \<^verbatim>\<open>util/strencodings.h\<close> are not among the source files. The address codec is described
  as a checksummed, segment-based text encoding with 5-bit group packing under an 8-to-5
  and 5-to-8 bit-width conversion, and the calls name the encoding \<^verbatim>\<open>BECH32M\<close>: the
  definitions of this section follow the Bech32m encoding of BIP-350, function by function.
\<close>

text \<open>Modelled from the spec: the result kinds of decoding, \<^verbatim>\<open>bech32::Encoding\<close>.\<close>

datatype Encoding = INVALID | BECH32 | BECH32M

text \<open>Modelled from the spec: the character set of the data part, and its inverse table
  over the 128 ASCII codes (\<open>- 1\<close> for a character outside the set).\<close>

definition CHARSET :: string where
  "CHARSET = ''qpzry9x8gf2tvdw0s3jn54khce6mua7l''"

definition CHARSET_REV :: "int list" where
  "CHARSET_REV =
     [
      - 1, - 1, - 1, - 1, - 1, - 1, - 1, - 1, - 1, - 1, - 1, - 1, - 1, - 1, - 1, - 1,
      - 1, - 1, - 1, - 1, - 1, - 1, - 1, - 1, - 1, - 1, - 1, - 1, - 1, - 1, - 1, - 1,
      - 1, - 1, - 1, - 1, - 1, - 1, - 1, - 1, - 1, - 1, - 1, - 1, - 1, - 1, - 1, - 1,
      15, - 1, 10, 17, 21, 20, 26, 30, 7, 5, - 1, - 1, - 1, - 1, - 1, - 1,
      - 1, 29, - 1, 24, 13, 25, 9, 8, 23, - 1, 18, 22, 31, 27, 19, - 1,
      1, 0, 3, 16, 11, 28, 12, 14, 6, 4, 2, - 1, - 1, - 1, - 1, - 1,
      - 1, 29, - 1, 24, 13, 25, 9, 8, 23, - 1, 18, 22, 31, 27, 19, - 1,
      1, 0, 3, 16, 11, 28, 12, 14, 6, 4, 2, - 1, - 1, - 1, - 1, - 1
     ]"

text \<open>Modelled from the spec: the checksum has six characters.\<close>

definition CHECKSUM_SIZE :: nat where
  "CHECKSUM_SIZE = 6"

text \<open>Modelled from the spec: the final constant of the checksum, 1 for Bech32 and
  \<open>0x2bc830a3\<close> for Bech32m.\<close>

definition EncodingConstant :: "Encoding \<Rightarrow> 32 word" where
  "EncodingConstant encoding = (if encoding = BECH32 then 1 else 0x2bc830a3)"

text \<open>Modelled from the spec: one round of the checksum polynomial on a \<^verbatim>\<open>uint32_t\<close>,
  and \<^verbatim>\<open>PolyMod\<close>, the rounds over all values starting from 1.\<close>

definition PolyMod_step :: "32 word \<Rightarrow> byte \<Rightarrow> 32 word" where
  "PolyMod_step c v_i =
     (let c0 = (ucast (drop_bit 25 c) :: byte);
          c1 = push_bit 5 (c AND 0x1ffffff) XOR ucast v_i;
          c2 = (if c0 AND 1 \<noteq> 0 then c1 XOR 0x3b6a57b2 else c1);
          c3 = (if c0 AND 2 \<noteq> 0 then c2 XOR 0x26508e6d else c2);
          c4 = (if c0 AND 4 \<noteq> 0 then c3 XOR 0x1ea119fa else c3);
          c5 = (if c0 AND 8 \<noteq> 0 then c4 XOR 0x3d4233dd else c4)
      in if c0 AND 16 \<noteq> 0 then c5 XOR 0x2a1462b3 else c5)"

definition PolyMod :: "bytes \<Rightarrow> 32 word" where
  "PolyMod v = foldl PolyMod_step 1 v"

text \<open>Modelled from the spec: \<^verbatim>\<open>LowerCase\<close> on one character.\<close>

definition LowerCase :: "char \<Rightarrow> char" where
  "LowerCase c =
     (if 65 \<le> (of_char c :: nat) \<and> (of_char c :: nat) \<le> 90 then char_of ((of_char c :: nat) - 65 + 97)
      else c)"

text \<open>Modelled from the spec: the values that enter the checksum: the high bits of the
  characters of the prefix, a zero, their low five bits, then the data values.\<close>

definition PreparePolynomialCoefficients :: "string \<Rightarrow> bytes \<Rightarrow> bytes" where
  "PreparePolynomialCoefficients hrp values =
     map (\<lambda>c. drop_bit 5 (of_nat (of_char c) :: byte)) hrp @ [0]
       @ map (\<lambda>c. (of_nat (of_char c) :: byte) AND 0x1f) hrp @ values"

text \<open>Modelled from the spec: \<^verbatim>\<open>VerifyChecksum\<close> tells which encoding the checksum of the
  values (data and checksum) under the prefix belongs to.\<close>

definition VerifyChecksum :: "string \<Rightarrow> bytes \<Rightarrow> Encoding" where
  "VerifyChecksum hrp values =
     (let check = PolyMod (PreparePolynomialCoefficients hrp values)
      in if check = EncodingConstant BECH32 then BECH32
         else if check = EncodingConstant BECH32M then BECH32M
         else INVALID)"

text \<open>Modelled from the spec: \<^verbatim>\<open>CreateChecksum\<close>, the six 5-bit values that make the
  checksum of prefix and data equal to the constant of the encoding.\<close>

definition CreateChecksum :: "Encoding \<Rightarrow> string \<Rightarrow> bytes \<Rightarrow> bytes" where
  "CreateChecksum encoding hrp values =
     (let enc = PreparePolynomialCoefficients hrp values @ replicate CHECKSUM_SIZE 0;
          md = PolyMod enc XOR EncodingConstant encoding
      in map (\<lambda>i. ucast (drop_bit (5 * (5 - i)) md AND 31)) [0..<6])"

text \<open>Modelled from the spec: \<^verbatim>\<open>bech32::Encode\<close>: prefix, separator \<open>1\<close>, then the
  characters of the data values and of the checksum. (The encoder asserts that the prefix
  has no upper-case letter; its only caller passes \<^verbatim>\<open>"ebc1"\<close>.)\<close>

definition bech32_Encode :: "Encoding \<Rightarrow> string \<Rightarrow> bytes \<Rightarrow> string" where
  "bech32_Encode encoding hrp values =
     (let checksum = CreateChecksum encoding hrp values;
          combined = values @ checksum
      in hrp @ ''1'' @ map (\<lambda>c. CHARSET ! unat c) combined)"

text \<open>Modelled from the spec: \<^verbatim>\<open>CheckCharacters\<close> collects the positions of characters
  out of the range 33..126 and of letters whose case differs from that of an earlier
  letter; the string passes when there is none.\<close>

definition CheckCharacters_step :: "bool \<times> bool \<times> nat list \<Rightarrow> nat \<times> char \<Rightarrow> bool \<times> bool \<times> nat list" where
  "CheckCharacters_step st ic =
     (case st of (lower, upper, errors) \<Rightarrow>
        (case ic of (i, ch) \<Rightarrow>
           (let c = (of_char ch :: nat) in
            if 97 \<le> c \<and> c \<le> 122 then
              (if upper then (lower, upper, errors @ [i]) else (True, upper, errors))
            else if 65 \<le> c \<and> c \<le> 90 then
              (if lower then (lower, upper, errors @ [i]) else (lower, True, errors))
            else if c < 33 \<or> c > 126 then (lower, upper, errors @ [i])
            else (lower, upper, errors))))"

definition CheckCharacters :: "string \<Rightarrow> bool" where
  "CheckCharacters str =
     (case foldl CheckCharacters_step (False, False, []) (zip [0..<length str] str) of
        (lower, upper, errors) \<Rightarrow> errors = [])"

text \<open>Modelled from the spec: \<^verbatim>\<open>std::string::rfind\<close>, the position of the last occurrence
  of a character (\<open>None\<close> is \<^verbatim>\<open>npos\<close>).\<close>

primrec rfind :: "char \<Rightarrow> string \<Rightarrow> nat option" where
  "rfind c [] = None"
| "rfind c (x # xs) =
     (case rfind c xs of
        Some i \<Rightarrow> Some (Suc i)
      | None \<Rightarrow> if x = c then Some 0 else None)"

text \<open>Modelled from the spec: \<^verbatim>\<open>bech32::DecodeResult\<close>; the default one has the encoding
  \<^verbatim>\<open>INVALID\<close>, an empty prefix and no data.\<close>

record DecodeResult =
  dec_encoding :: Encoding
  dec_hrp :: string
  dec_data :: bytes

definition DecodeResult_default :: DecodeResult where
  "DecodeResult_default = \<lparr>dec_encoding = INVALID, dec_hrp = [], dec_data = []\<rparr>"

text \<open>Modelled from the spec: \<^verbatim>\<open>bech32::Decode\<close> with its character limit (90 by
  default): character check, split at the last \<open>1\<close>, table lookup of the data
  characters, lower-casing of the prefix, checksum.\<close>

definition bech32_Decode :: "string \<Rightarrow> nat \<Rightarrow> DecodeResult" where
  "bech32_Decode str limit =
     (if \<not> CheckCharacters str then DecodeResult_default
      else case rfind CHR ''1'' str of
        None \<Rightarrow> DecodeResult_default
      | Some pos \<Rightarrow>
          if length str > limit then DecodeResult_default
          else if pos = 0 \<or> pos + CHECKSUM_SIZE \<ge> length str then DecodeResult_default
          else (let revs = map (\<lambda>c. CHARSET_REV ! of_char c) (drop (pos + 1) str)
                in if - 1 \<in> set revs then DecodeResult_default
                   else (let values = (map word_of_int revs :: bytes);
                             hrp = map LowerCase (take pos str);
                             result = VerifyChecksum hrp values
                         in if result = INVALID then DecodeResult_default
                            else \<lparr>dec_encoding = result, dec_hrp = hrp,
                                  dec_data = take (length values - CHECKSUM_SIZE) values\<rparr>)))"

text \<open>
  Modelled from the spec: \<^verbatim>\<open>ConvertBits<frombits, tobits, pad>\<close>. The accumulator is a
  \<^verbatim>\<open>size_t\<close> masked to \<open>frombits + tobits - 1\<close> bits in every round, so it never wraps
  and is a natural number here; the input values are bytes, so the test for a negative
  value never fires. \<open>ConvertBits_emit\<close> is the inner loop that hands out
  groups of \<open>tobits\<close> bits while enough bits are pending; the result is \<open>None\<close> where the
  function returns false.
\<close>

function ConvertBits_emit :: "nat \<Rightarrow> nat \<Rightarrow> nat \<Rightarrow> nat \<times> bytes" where
  "ConvertBits_emit tobits acc bits =
     (if 0 < tobits \<and> tobits \<le> bits then
        (case ConvertBits_emit tobits acc (bits - tobits) of
           (bits', out) \<Rightarrow> (bits', of_nat (drop_bit (bits - tobits) acc AND (2 ^ tobits - 1)) # out))
      else (bits, []))"
  by pat_completeness auto
termination
  by (relation "measure (\<lambda>(tobits, acc, bits). bits)") auto

fun ConvertBits_loop :: "nat \<Rightarrow> nat \<Rightarrow> nat \<Rightarrow> nat \<Rightarrow> bytes \<Rightarrow> nat \<times> nat \<times> bytes" where
  "ConvertBits_loop frombits tobits acc bits [] = (acc, bits, [])"
| "ConvertBits_loop frombits tobits acc bits (v # rest) =
     (let acc1 = (push_bit frombits acc OR unat v) AND (2 ^ (frombits + tobits - 1) - 1)
      in case ConvertBits_emit tobits acc1 (bits + frombits) of
           (bits1, out1) \<Rightarrow>
             (case ConvertBits_loop frombits tobits acc1 bits1 rest of
                (acc2, bits2, out2) \<Rightarrow> (acc2, bits2, out1 @ out2)))"

definition ConvertBits :: "nat \<Rightarrow> nat \<Rightarrow> bool \<Rightarrow> bytes \<Rightarrow> bytes option" where
  "ConvertBits frombits tobits pad input =
     (case ConvertBits_loop frombits tobits 0 0 input of
        (acc, bits, out) \<Rightarrow>
          if pad then
            (if bits \<noteq> 0 then Some (out @ [of_nat (push_bit (tobits - bits) acc AND (2 ^ tobits - 1))])
             else Some out)
          else if bits \<ge> frombits \<or> push_bit (tobits - bits) acc AND (2 ^ tobits - 1) \<noteq> 0 then None
          else Some out)"

section \<open>EBC addresses (ebc/ebc_address.h, ebc_address.cpp)\<close>

text \<open>\<^verbatim>\<open>enum class EBCAddressVersion : uint8_t\<close>: a byte.\<close>

type_synonym EBCAddressVersion = byte

definition PQ_PUBKEY :: EBCAddressVersion where "PQ_PUBKEY = 0"
definition PQ_SCRIPT :: EBCAddressVersion where "PQ_SCRIPT = 1"
definition PQ_WITNESS_V0 :: EBCAddressVersion where "PQ_WITNESS_V0 = 2"
definition PQ_WITNESS_V1 :: EBCAddressVersion where "PQ_WITNESS_V1 = 3"

definition EBC_HRP :: string where "EBC_HRP = ''ebc1''"
definition EBC_PUBKEY_HASH_SIZE :: nat where "EBC_PUBKEY_HASH_SIZE = 20"
definition EBC_SCRIPT_HASH_SIZE :: nat where "EBC_SCRIPT_HASH_SIZE = 32"

record EBCAddress =
  m_version :: EBCAddressVersion
  m_data :: bytes
  m_algorithm :: PQAlgorithm

text \<open>The default constructor: the invalid address.\<close>

definition EBCAddress_default :: EBCAddress where
  "EBCAddress_default = \<lparr>m_version = PQ_PUBKEY, m_data = [], m_algorithm = UNKNOWN\<rparr>"

definition EBCAddress_IsValid :: "EBCAddress \<Rightarrow> bool" where
  "EBCAddress_IsValid a =
     (if m_algorithm a = UNKNOWN then False
      else if m_version a = PQ_PUBKEY then length (m_data a) = EBC_PUBKEY_HASH_SIZE
      else if m_version a = PQ_SCRIPT then length (m_data a) = EBC_SCRIPT_HASH_SIZE
      else if m_version a = PQ_WITNESS_V0 then
        length (m_data a) = EBC_PUBKEY_HASH_SIZE \<or> length (m_data a) = EBC_SCRIPT_HASH_SIZE
      else if m_version a = PQ_WITNESS_V1 then length (m_data a) = EBC_SCRIPT_HASH_SIZE
      else False)"

definition EBCAddress_ToString :: "EBCAddress \<Rightarrow> string" where
  "EBCAddress_ToString a =
     (if \<not> EBCAddress_IsValid a then []
      else (let data = [m_version a, word_of_int (m_algorithm a)] @ m_data a
            in case ConvertBits 8 5 True data of
                 None \<Rightarrow> []
               | Some conv_data \<Rightarrow> bech32_Encode BECH32M EBC_HRP conv_data))"

definition EBCAddress_FromString :: "string \<Rightarrow> EBCAddress" where
  "EBCAddress_FromString str =
     (let dec = bech32_Decode str 90
      in if dec_encoding dec \<noteq> BECH32M \<or> dec_hrp dec \<noteq> EBC_HRP then EBCAddress_default
         else if dec_data dec = [] then EBCAddress_default
         else case ConvertBits 5 8 False (dec_data dec) of
                None \<Rightarrow> EBCAddress_default
              | Some data \<Rightarrow>
                  if length data < 2 then EBCAddress_default
                  else (let version = data ! 0;
                            algorithm = uint (data ! 1);
                            addr_data = drop 2 data;
                            addr = \<lparr>m_version = version, m_data = addr_data, m_algorithm = algorithm\<rparr>
                        in if EBCAddress_IsValid addr then addr else EBCAddress_default))"

definition IsValidEBCAddress :: "string \<Rightarrow> bool" where
  "IsValidEBCAddress str = EBCAddress_IsValid (EBCAddress_FromString str)"

subsection \<open>Locking scripts\<close>

text \<open>
  \<^verbatim>\<open>CScript\<close> and its \<^verbatim>\<open>operator<<\<close> are declared in \<^verbatim>\<open>script/script.h\<close>, which is not among
  the source files: a script is the sequence of the items that were appended to it, an
  opcode or the push of a byte vector.
\<close>

datatype opcodetype = OP_DUP | OP_HASH160 | OP_HASH256 | OP_EQUAL | OP_EQUALVERIFY | OP_PQCHECKSIG

datatype script_item = Op opcodetype | Push bytes

type_synonym CScript = "script_item list"

text \<open>
  \<^verbatim>\<open>uint256 hash; std::copy(m_data.begin(), m_data.end(), hash.begin())\<close>: the bytes of the
  data over 32 zero bytes (the data of a valid \<^verbatim>\<open>PQ_SCRIPT\<close> address has 32 bytes).
\<close>

definition uint256_copy :: "bytes \<Rightarrow> bytes" where
  "uint256_copy d = take 32 (d @ replicate 32 0)"

definition CreateP2PQPKHScript :: "bytes \<Rightarrow> PQAlgorithm \<Rightarrow> CScript" where
  "CreateP2PQPKHScript pubkey_hash algo =
     [] @ [Op OP_DUP] @ [Op OP_HASH160] @ [Push pubkey_hash] @ [Op OP_EQUALVERIFY] @ [Op OP_PQCHECKSIG]"

definition CreateP2PQSHScript :: "bytes \<Rightarrow> PQAlgorithm \<Rightarrow> CScript" where
  "CreateP2PQSHScript script_hash algo =
     [] @ [Op OP_HASH256] @ [Push script_hash] @ [Op OP_EQUAL]"

definition EBCAddress_GetScript :: "EBCAddress \<Rightarrow> CScript" where
  "EBCAddress_GetScript a =
     (if \<not> EBCAddress_IsValid a then []
      else if m_version a = PQ_PUBKEY then CreateP2PQPKHScript (m_data a) (m_algorithm a)
      else if m_version a = PQ_SCRIPT then CreateP2PQSHScript (uint256_copy (m_data a)) (m_algorithm a)
      else if m_version a = PQ_WITNESS_V0 \<or> m_version a = PQ_WITNESS_V1 then []
      else [])"

definition FromScriptHash :: "bytes \<Rightarrow> PQAlgorithm \<Rightarrow> EBCAddress" where
  "FromScriptHash hash algo = \<lparr>m_version = PQ_SCRIPT, m_data = hash, m_algorithm = algo\<rparr>"

section \<open>Notions used by the proofs\<close>

text \<open>
  The number that a list of groups of \<open>w\<close> bits spells (first group most significant),
  the 30-bit word that six 5-bit values spell, the generator part of a checksum round,
  and the classes of characters that \<^verbatim>\<open>CheckCharacters\<close> tells apart.
\<close>

fun group_value :: "nat \<Rightarrow> bytes \<Rightarrow> nat" where
  "group_value w [] = 0"
| "group_value w (v # vs) = unat v * 2 ^ (w * length vs) + group_value w vs"

fun pack5 :: "bytes \<Rightarrow> 32 word" where
  "pack5 [] = 0"
| "pack5 (v # vs) = push_bit (5 * length vs) (ucast v) XOR pack5 vs"

definition PolyMod_gen :: "32 word \<Rightarrow> 32 word" where
  "PolyMod_gen c =
     (if (ucast (drop_bit 25 c) :: byte) AND 1 \<noteq> 0 then 0x3b6a57b2 else 0)
     XOR (if (ucast (drop_bit 25 c) :: byte) AND 2 \<noteq> 0 then 0x26508e6d else 0)
     XOR (if (ucast (drop_bit 25 c) :: byte) AND 4 \<noteq> 0 then 0x1ea119fa else 0)
     XOR (if (ucast (drop_bit 25 c) :: byte) AND 8 \<noteq> 0 then 0x3d4233dd else 0)
     XOR (if (ucast (drop_bit 25 c) :: byte) AND 16 \<noteq> 0 then 0x2a1462b3 else 0)"

definition in_range :: "char \<Rightarrow> bool" where
  "in_range c = (33 \<le> (of_char c :: nat) \<and> (of_char c :: nat) \<le> 126)"

definition is_lower :: "char \<Rightarrow> bool" where
  "is_lower c = (97 \<le> (of_char c :: nat) \<and> (of_char c :: nat) \<le> 122)"

definition is_upper :: "char \<Rightarrow> bool" where
  "is_upper c = (65 \<le> (of_char c :: nat) \<and> (of_char c :: nat) \<le> 90)"

definition well_cased :: "string \<Rightarrow> bool" where
  "well_cased str = ((\<forall>c \<in> set str. in_range c)
                      \<and> \<not> ((\<exists>c \<in> set str. is_lower c) \<and> (\<exists>c \<in> set str. is_upper c)))"



text \<open>Addresses used as examples.\<close>

definition addr_dilithium :: EBCAddress where
  "addr_dilithium = \<lparr>m_version = PQ_PUBKEY, m_data = replicate 20 0, m_algorithm = DILITHIUM3\<rparr>"

definition addr_falcon :: EBCAddress where
  "addr_falcon = \<lparr>m_version = PQ_PUBKEY, m_data = replicate 20 0, m_algorithm = FALCON512\<rparr>"

definition addr_witness :: EBCAddress where
  "addr_witness = \<lparr>m_version = PQ_WITNESS_V0, m_data = replicate 20 0, m_algorithm = DILITHIUM3\<rparr>"

definition addr_unrecognized :: EBCAddress where
  "addr_unrecognized = \<lparr>m_version = PQ_PUBKEY, m_data = replicate 20 0, m_algorithm = 7\<rparr>"

text \<open>
  An address whose algorithm is \<^verbatim>\<open>static_cast<pq::PQAlgorithm>(256)\<close>, a value of the
  underlying type \<^verbatim>\<open>int\<close> that does not fit the algorithm byte of the encoding.
\<close>

definition addr_wide :: EBCAddress where
  "addr_wide = \<lparr>m_version = PQ_PUBKEY, m_data = replicate 20 0, m_algorithm = 256\<rparr>"

section \<open>The consensus phase (script/pq_interpreter.h, chain parameters)\<close>

subsection \<open>What the source holds\<close>

text \<open>
  \<^verbatim>\<open>struct PQScriptExecutionData\<close>: the two pointers are addresses; the two flags are
  plain \<^verbatim>\<open>bool\<close> members that the constructor copies from its arguments (\<^verbatim>\<open>false\<close> when
  they are left out). The structure holds no height.
\<close>

record PQScriptExecutionData =
  tx :: addr
  nIn :: "32 word"
  amount :: "64 word"
  txdata :: addr
  fEBCActive :: bool
  fGracePeriod :: bool

definition PQScriptExecutionData_new ::
  "addr \<Rightarrow> 32 word \<Rightarrow> 64 word \<Rightarrow> addr \<Rightarrow> bool \<Rightarrow> bool \<Rightarrow> PQScriptExecutionData" where
  "PQScriptExecutionData_new tx_in nIn_in amount_in txdata_in fEBCActive_in fGracePeriod_in =
     \<lparr>tx = tx_in, nIn = nIn_in, amount = amount_in, txdata = txdata_in,
      fEBCActive = fEBCActive_in, fGracePeriod = fGracePeriod_in\<rparr>"

definition PQScriptExecutionData_new4 ::
  "addr \<Rightarrow> 32 word \<Rightarrow> 64 word \<Rightarrow> addr \<Rightarrow> PQScriptExecutionData" where
  "PQScriptExecutionData_new4 tx_in nIn_in amount_in txdata_in =
     PQScriptExecutionData_new tx_in nIn_in amount_in txdata_in False False"

subsection \<open>The phase of section 4.5\<close>

text \<open>
  Modelled from the spec: no function of the source files computes the phase; the chain
  parameters (\<^verbatim>\<open>nEBCActivationHeight\<close>, \<^verbatim>\<open>nGracePeriodBlocks\<close>, \<^verbatim>\<open>nWhiteKnightSweepHeight\<close>)
  and the two flags above are all the source has. The six phases and their conditions
  are those of section 4.5.
\<close>

datatype Phase =
  PRE_ACTIVATION | GRACE_DUAL_SIG | PQ_ONLY | SWEEP_ELIGIBLE | SWEEP_COMPLETE | RECLAIM_WINDOW

text \<open>Modelled from the spec: the position of a phase in the ordered sequence.\<close>

fun phase_rank :: "Phase \<Rightarrow> nat" where
  "phase_rank PRE_ACTIVATION = 0"
| "phase_rank GRACE_DUAL_SIG = 1"
| "phase_rank PQ_ONLY = 2"
| "phase_rank SWEEP_ELIGIBLE = 3"
| "phase_rank SWEEP_COMPLETE = 4"
| "phase_rank RECLAIM_WINDOW = 5"

text \<open>
  Modelled from the spec: what the phase is derived from. \<open>activationHeight\<close> is unset
  until the activation is accepted. The execution of the sweep is, like the activation, an
  event of the chain: \<open>sweepCompletionHeight\<close> is the height of the block in which the
  finalized sweep transaction set is included, unset while the sweep is not executed.
  \<open>reclaimExpiryBlocks\<close> is the configured expiry of the reclaim window, counted from the
  completion of the sweep.
\<close>

record phase_params =
  activationHeight :: "int option"
  graceDurationBlocks :: int
  sweepDurationBlocks :: int
  sweepCompletionHeight :: "int option"
  reclaimExpiryBlocks :: int


text \<open>
  Modelled from the spec: the phase at \<open>currentHeight\<close> as a function, the conditions of
  section 4.5 tested in the order of the sequence. No phase follows RECLAIM_WINDOW: past
  the expiry, where section 4.5 names none, the function stays there.
\<close>

definition phase :: "phase_params \<Rightarrow> int \<Rightarrow> Phase" where
  "phase p currentHeight =
     (case activationHeight p of
        None \<Rightarrow> PRE_ACTIVATION
      | Some a \<Rightarrow>
          if currentHeight < a then PRE_ACTIVATION
          else if currentHeight < a + graceDurationBlocks p then GRACE_DUAL_SIG
          else if currentHeight < a + sweepDurationBlocks p then PQ_ONLY
          else (case sweepCompletionHeight p of
                  None \<Rightarrow> SWEEP_ELIGIBLE
                | Some c \<Rightarrow>
                    if currentHeight < c then SWEEP_ELIGIBLE
                    else if currentHeight = c then SWEEP_COMPLETE
                    else RECLAIM_WINDOW))"

text \<open>
  Modelled from the spec: the parameters are ordered when the grace period is not negative
  and ends no later than the sweep becomes eligible, and the sweep is executed only after
  an activation and not before it is eligible. A height is before the expiry when the
  reclaim window, if it has begun, has not ended.
\<close>

definition params_ordered :: "phase_params \<Rightarrow> bool" where
  "params_ordered p =
     (case activationHeight p of
        None \<Rightarrow> sweepCompletionHeight p = None
      | Some a \<Rightarrow>
          0 \<le> graceDurationBlocks p \<and> graceDurationBlocks p \<le> sweepDurationBlocks p
          \<and> (case sweepCompletionHeight p of None \<Rightarrow> True
              | Some c \<Rightarrow> a + sweepDurationBlocks p \<le> c))"


text \<open>
  The parameters of \<^verbatim>\<open>CEBCParams\<close> (activation at genesis, 4320 blocks of grace, sweep
  at height 25920; no sweep executed), those of the end-to-end scenario of section 8 with
  the sweep included at height 1305, and parameters whose grace period is longer than the
  time to the sweep, whose grace period is negative, and whose sweep is included before
  it is eligible.
\<close>

definition CEBCParams_phase :: phase_params where
  "CEBCParams_phase =
     \<lparr>activationHeight = Some 0, graceDurationBlocks = 4320, sweepDurationBlocks = 25920,
      sweepCompletionHeight = None, reclaimExpiryBlocks = 0\<rparr>"




section \<open>Properties of keys and signatures\<close>


lemma GetOQSAlgorithmName_UNKNOWN [simp]: "GetOQSAlgorithmName UNKNOWN = None"
  by (simp add: GetOQSAlgorithmName_def UNKNOWN_def DILITHIUM3_def FALCON512_def)

lemma PQSignature_default_invalid [simp]: "\<not> PQSignature_IsValid lib PQSignature_default"
  by (simp add: PQSignature_IsValid_def PQSignature_default_def)

lemma PQPubKey_default_invalid [simp]: "\<not> PQPubKey_IsValid lib PQPubKey_default"
  by (simp add: PQPubKey_IsValid_def PQPubKey_default_def)

lemma PQPrivKey_default_invalid [simp]: "\<not> PQPrivKey_IsValid lib PQPrivKey_default"
  by (simp add: PQPrivKey_IsValid_def PQPrivKey_default_def)

text \<open>
  C3. \<^verbatim>\<open>PQSignature::Verify\<close> returns false whenever the algorithm tag of the signature
  differs from the algorithm tag of the public key, whatever the signature bytes, the key
  bytes, the message hash and the behaviour of liboqs.
\<close>

theorem Verify_rejects_algorithm_mismatch:
  "sig_algorithm s \<noteq> pk_algorithm k \<Longrightarrow> \<not> PQSignature_Verify lib s m k"
  by (simp add: PQSignature_Verify_def)

theorem Verify_rejects_algorithm_mismatch_witness:
  "sig_algorithm \<lparr>sig_data = [1], sig_algorithm = FALCON512\<rparr>
     \<noteq> pk_algorithm \<lparr>pk_data = replicate 1952 0, pk_algorithm = DILITHIUM3\<rparr>
   \<and> PQSignature_IsValid oqs_accepting \<lparr>sig_data = [1], sig_algorithm = FALCON512\<rparr>
   \<and> PQPubKey_IsValid oqs_accepting \<lparr>pk_data = replicate 1952 0, pk_algorithm = DILITHIUM3\<rparr>
   \<and> \<not> PQSignature_Verify oqs_accepting \<lparr>sig_data = [1], sig_algorithm = FALCON512\<rparr> [1, 2, 3, 4]
         \<lparr>pk_data = replicate 1952 0, pk_algorithm = DILITHIUM3\<rparr>"
  using Verify_rejects_algorithm_mismatch
    [of "\<lparr>sig_data = [1], sig_algorithm = FALCON512\<rparr>"
        "\<lparr>pk_data = replicate 1952 0, pk_algorithm = DILITHIUM3\<rparr>" oqs_accepting "[1, 2, 3, 4]"]
  by (simp add: PQSignature_IsValid_def PQPubKey_IsValid_def GetSignatureSize_def GetPubKeySize_def
      GetOQSAlgorithmName_def oqs_accepting_def DILITHIUM3_def FALCON512_def UNKNOWN_def)

lemma sig_len_cat:
  fixes a b c d :: byte
  shows "(ucast a OR push_bit 8 (ucast b) OR push_bit 16 (ucast c) OR push_bit 24 (ucast d) :: 32 word)
     = word_cat d (word_cat c (word_cat b a :: 16 word) :: 24 word)"
  by (rule bit_word_eqI) (auto simp add: bit_simps dest: bit_imp_le_length)

lemma uint_word_cat:
  fixes v :: "'a::len word" and w :: "'b::len word"
  assumes "LENGTH('a) + LENGTH('b) \<le> LENGTH('c::len)"
  shows "uint (word_cat v w :: 'c word) = uint v * 2 ^ LENGTH('b) + uint w"
proof -
  have "uint (word_cat v w :: 'c word) = take_bit LENGTH('c) (concat_bit LENGTH('b) (uint w) (uint v))"
    by (simp add: word_cat_eq' uint_word_of_int take_bit_eq_mod)
  also have "concat_bit LENGTH('b) (uint w) (uint v) = uint v * 2 ^ LENGTH('b) + uint w"
    by (simp add: concat_bit_eq push_bit_eq_mult take_bit_eq_mod uint_lt2p uint_ge_0 algebra_simps)
  also have "take_bit LENGTH('c) (uint v * 2 ^ LENGTH('b) + uint w) = uint v * 2 ^ LENGTH('b) + uint w"
  proof (rule take_bit_int_eq_self)
    show "0 \<le> uint v * 2 ^ LENGTH('b) + uint w" by simp
    have "uint v < 2 ^ LENGTH('a)" by (rule uint_lt2p)
    then have "uint v + 1 \<le> 2 ^ LENGTH('a)" by linarith
    then have "(uint v + 1) * 2 ^ LENGTH('b) \<le> 2 ^ LENGTH('a) * 2 ^ LENGTH('b)"
      by (rule mult_right_mono) simp
    moreover have "uint w < 2 ^ LENGTH('b)" by (rule uint_lt2p)
    ultimately have "uint v * 2 ^ LENGTH('b) + uint w < 2 ^ LENGTH('a) * 2 ^ LENGTH('b)"
      unfolding distrib_right by linarith
    then have "uint v * 2 ^ LENGTH('b) + uint w < 2 ^ (LENGTH('a) + LENGTH('b))"
      by (simp only: power_add)
    also have "(2::int) ^ (LENGTH('a) + LENGTH('b)) \<le> 2 ^ LENGTH('c)"
      using assms by (simp add: power_increasing)
    finally show "uint v * 2 ^ LENGTH('b) + uint w < 2 ^ LENGTH('c)" .
  qed
  finally show ?thesis .
qed

lemma sig_len_unat:
  fixes a b c d :: byte
  shows "unat (ucast a OR push_bit 8 (ucast b) OR push_bit 16 (ucast c) OR push_bit 24 (ucast d) :: 32 word)
     = unat a + 256 * unat b + 65536 * unat c + 16777216 * unat d"
proof -
  have "uint (word_cat d (word_cat c (word_cat b a :: 16 word) :: 24 word) :: 32 word)
      = uint a + 256 * uint b + 65536 * uint c + 16777216 * uint d"
  proof -
    have 1: "uint (word_cat b a :: 16 word) = uint b * 2 ^ 8 + uint a"
      using uint_word_cat [of b a, where 'c = 16] by simp
    have 2: "uint (word_cat c (word_cat b a :: 16 word) :: 24 word)
               = uint c * 2 ^ 16 + uint (word_cat b a :: 16 word)"
      using uint_word_cat [of c "word_cat b a :: 16 word", where 'c = 24] by simp
    have 3: "uint (word_cat d (word_cat c (word_cat b a :: 16 word) :: 24 word) :: 32 word)
               = uint d * 2 ^ 24 + uint (word_cat c (word_cat b a :: 16 word) :: 24 word)"
      using uint_word_cat [of d "word_cat c (word_cat b a :: 16 word) :: 24 word", where 'c = 32]
      by simp
    show ?thesis unfolding 3 2 1 by simp
  qed
  then have "int (unat (word_cat d (word_cat c (word_cat b a :: 16 word) :: 24 word) :: 32 word))
      = int (unat a) + 256 * int (unat b) + 65536 * int (unat c) + 16777216 * int (unat d)"
    by (simp only: uint_nat)
  then show ?thesis
    unfolding sig_len_cat by linarith
qed

lemma GetOQSAlgorithmName_None:
  "a \<noteq> DILITHIUM3 \<Longrightarrow> a \<noteq> FALCON512 \<Longrightarrow> GetOQSAlgorithmName a = None"
  by (simp add: GetOQSAlgorithmName_def)

lemma PQSignature_new_unknown:
  "a \<noteq> DILITHIUM3 \<Longrightarrow> a \<noteq> FALCON512 \<Longrightarrow> PQSignature_new lib d a = PQSignature_default"
  by (simp add: PQSignature_new_def PQSignature_IsValid_def GetSignatureSize_def
      GetOQSAlgorithmName_None PQSignature_default_def Let_def)

lemma wrapped_length_neq:
  fixes w :: "32 word"
  assumes "5 \<le> n" and "n \<noteq> 5 + unat w"
  shows "n \<noteq> unat (5 + w)"
proof (cases "5 + unat w < 2 ^ 32")
  case True
  then have "unat (5 + w) = 5 + unat w"
    by (simp add: unat_word_ariths)
  with assms show ?thesis by simp
next
  case False
  have "unat w < 2 ^ 32" using unsigned_less [of w, where 'a = nat] by simp
  have "unat (5 + w) = (5 + unat w) mod 2 ^ 32"
    by (simp add: unat_word_ariths)
  also have "\<dots> = 5 + unat w - 2 ^ 32"
    using False \<open>unat w < 2 ^ 32\<close> by (simp add: mod_if)
  finally have "unat (5 + w) < 5" using \<open>unat w < 2 ^ 32\<close> by simp
  with assms show ?thesis by simp
qed

lemma Deserialize_malformed:
  assumes "malformed_signature data"
  shows "PQSignature_Deserialize lib data = PQSignature_default"
proof (cases "length data < 5")
  case True
  then show ?thesis by (simp add: PQSignature_Deserialize_def)
next
  case long: False
  show ?thesis
  proof (cases "uint (data ! 0) = UNKNOWN")
    case True
    with long show ?thesis by (simp add: PQSignature_Deserialize_def)
  next
    case known: False
    show ?thesis
    proof (cases "length data \<noteq> 5 + length_prefix data")
      case True
      then have "length data \<noteq> unat (5 + (ucast (data ! 1) OR push_bit 8 (ucast (data ! 2))
                                    OR push_bit 16 (ucast (data ! 3))
                                    OR push_bit 24 (ucast (data ! 4)) :: 32 word))"
        using long by (intro wrapped_length_neq) (simp_all add: sig_len_unat length_prefix_def)
      with long known show ?thesis by (simp add: PQSignature_Deserialize_def Let_def)
    next
      case False
      with assms long have "unknown_tag data" by (simp add: malformed_signature_def)
      then have "PQSignature_new lib (drop 5 data) (uint (data ! 0)) = PQSignature_default"
        by (simp add: unknown_tag_def PQSignature_new_unknown)
      with long show ?thesis by (simp add: PQSignature_Deserialize_def Let_def)
    qed
  qed
qed

text \<open>
  C9. \<^verbatim>\<open>PQSignature::Deserialize\<close> is total and fails closed: on every byte vector that is
  truncated (shorter than the tag and the length field), whose algorithm tag is not that
  of a known algorithm, or whose length prefix does not match the size of the buffer, it
  returns the invalid signature object, and \<^verbatim>\<open>Verify\<close> on that object is false for every
  hash and key. No branch of the function raises an error.
\<close>

theorem Deserialize_fails_closed:
  "malformed_signature data \<Longrightarrow>
     PQSignature_Deserialize lib data = PQSignature_default
     \<and> \<not> PQSignature_IsValid lib (PQSignature_Deserialize lib data)
     \<and> \<not> PQSignature_Verify lib (PQSignature_Deserialize lib data) hash pubkey"
  by (simp add: Deserialize_malformed PQSignature_Verify_def)

theorem Deserialize_fails_closed_witness:
  "malformed_signature [0, 1] \<and> malformed_signature [7, 1, 0, 0, 0, 0xAA]
   \<and> malformed_signature [0, 2, 0, 0, 0, 0xAA] \<and> malformed_signature [1, 0xFF, 0xFF, 0xFF, 0xFF, 0xAA]
   \<and> PQSignature_Deserialize oqs_accepting [0, 1] = PQSignature_default
   \<and> PQSignature_Deserialize oqs_accepting [7, 1, 0, 0, 0, 0xAA] = PQSignature_default
   \<and> PQSignature_Deserialize oqs_accepting [0, 2, 0, 0, 0, 0xAA] = PQSignature_default
   \<and> PQSignature_Deserialize oqs_accepting [1, 0xFF, 0xFF, 0xFF, 0xFF, 0xAA] = PQSignature_default
   \<and> \<not> PQSignature_Verify oqs_accepting (PQSignature_Deserialize oqs_accepting [7, 1, 0, 0, 0, 0xAA])
         [1, 2, 3, 4] \<lparr>pk_data = replicate 1952 0, pk_algorithm = DILITHIUM3\<rparr>"
proof -
  have m: "malformed_signature [0, 1]" "malformed_signature [7, 1, 0, 0, 0, 0xAA]"
    "malformed_signature [0, 2, 0, 0, 0, 0xAA]" "malformed_signature [1, 0xFF, 0xFF, 0xFF, 0xFF, 0xAA]"
    by (simp_all add: malformed_signature_def unknown_tag_def length_prefix_def
        DILITHIUM3_def FALCON512_def)
  show ?thesis
    using m Deserialize_fails_closed [OF m(1), of oqs_accepting]
      Deserialize_fails_closed [OF m(2), of oqs_accepting "[1, 2, 3, 4]"
        "\<lparr>pk_data = replicate 1952 0, pk_algorithm = DILITHIUM3\<rparr>"]
      Deserialize_fails_closed [OF m(3), of oqs_accepting]
      Deserialize_fails_closed [OF m(4), of oqs_accepting]
    by blast
qed

lemma Deserialize_well_formed_example:
  "PQSignature_Deserialize oqs_accepting [1, 1, 0, 0, 0, 0xAA] = \<lparr>sig_data = [0xAA], sig_algorithm = FALCON512\<rparr>
   \<and> PQSignature_IsValid oqs_accepting (PQSignature_Deserialize oqs_accepting [1, 1, 0, 0, 0, 0xAA])"
  by (simp add: PQSignature_Deserialize_def PQSignature_new_def PQSignature_IsValid_def
      GetSignatureSize_def GetOQSAlgorithmName_def oqs_accepting_def
      DILITHIUM3_def FALCON512_def UNKNOWN_def)

lemma PQPubKey_IsValid_length:
  "PQPubKey_IsValid lib k \<Longrightarrow>
     (case GetOQSAlgorithmName (pk_algorithm k) of
        None \<Rightarrow> False
      | Some alg_name \<Rightarrow> length (pk_data k) = length_public_key lib alg_name)"
  by (auto simp add: PQPubKey_IsValid_def GetPubKeySize_def Let_def split: option.splits if_splits)

lemma PQSignature_IsValid_length:
  "PQSignature_IsValid lib s \<Longrightarrow>
     (case GetOQSAlgorithmName (sig_algorithm s) of
        None \<Rightarrow> False
      | Some alg_name \<Rightarrow> sig_data s \<noteq> [] \<and> length (sig_data s) \<le> length_signature lib alg_name)"
  by (auto simp add: PQSignature_IsValid_def GetSignatureSize_def Let_def split: option.splits if_splits)

lemma pk_invariant_default: "pk_invariant lib PQPubKey_default"
  by (simp add: pk_invariant_def)

lemma pk_invariant_new: "pk_invariant lib (PQPubKey_new lib data algo)"
proof (cases "PQPubKey_IsValid lib \<lparr>pk_data = data, pk_algorithm = algo\<rparr>")
  case True
  then show ?thesis
    using PQPubKey_IsValid_length [OF True] by (simp add: pk_invariant_def PQPubKey_new_def)
next
  case False
  then have "PQPubKey_new lib data algo = PQPubKey_default"
    by (simp add: PQPubKey_new_def PQPubKey_default_def)
  then show ?thesis by (simp add: pk_invariant_default)
qed

lemma pk_invariant_Deserialize: "pk_invariant lib (PQPubKey_Deserialize lib data)"
  by (simp add: PQPubKey_Deserialize_def Let_def pk_invariant_default pk_invariant_new)

lemma pk_invariant_GetPubKey: "pk_invariant lib (PQPrivKey_GetPubKey lib sk)"
  by (simp add: PQPrivKey_GetPubKey_def Let_def pk_invariant_default pk_invariant_new
      split: option.split)

lemma pk_invariant_GenerateKeyPair: "pk_invariant lib (snd (GenerateKeyPair lib algo))"
  by (simp add: GenerateKeyPair_def pk_invariant_default pk_invariant_new
      split: option.split prod.split)

lemma sig_invariant_default: "sig_invariant lib PQSignature_default"
  by (simp add: sig_invariant_def)

lemma sig_invariant_new: "sig_invariant lib (PQSignature_new lib data algo)"
proof (cases "PQSignature_IsValid lib \<lparr>sig_data = data, sig_algorithm = algo\<rparr>")
  case True
  then show ?thesis
    using PQSignature_IsValid_length [OF True] by (simp add: sig_invariant_def PQSignature_new_def)
next
  case False
  then have "PQSignature_new lib data algo = PQSignature_default"
    by (simp add: PQSignature_new_def PQSignature_default_def)
  then show ?thesis by (simp add: sig_invariant_default)
qed

lemma sig_invariant_Deserialize: "sig_invariant lib (PQSignature_Deserialize lib data)"
  by (simp add: PQSignature_Deserialize_def Let_def sig_invariant_default sig_invariant_new)

text \<open>
  C8. Every \<^verbatim>\<open>PQPubKey\<close> and \<^verbatim>\<open>PQSignature\<close> that a constructor, \<^verbatim>\<open>Deserialize\<close>,
  \<^verbatim>\<open>GetPubKey\<close> or \<^verbatim>\<open>GenerateKeyPair\<close> returns either satisfies the length constraint of
  its algorithm and has \<^verbatim>\<open>IsValid()\<close> true, or is the canonical invalid object (empty
  data, algorithm \<^verbatim>\<open>UNKNOWN\<close>) and has \<^verbatim>\<open>IsValid()\<close> false.
\<close>

theorem constructed_objects_valid_or_canonical:
  "pk_invariant lib PQPubKey_default
   \<and> pk_invariant lib (PQPubKey_new lib data algo)
   \<and> pk_invariant lib (PQPubKey_Deserialize lib data)
   \<and> pk_invariant lib (PQPrivKey_GetPubKey lib sk)
   \<and> pk_invariant lib (snd (GenerateKeyPair lib algo))
   \<and> sig_invariant lib PQSignature_default
   \<and> sig_invariant lib (PQSignature_new lib data algo)
   \<and> sig_invariant lib (PQSignature_Deserialize lib data)"
  by (simp add: pk_invariant_default pk_invariant_new pk_invariant_Deserialize
      pk_invariant_GetPubKey pk_invariant_GenerateKeyPair
      sig_invariant_default sig_invariant_new sig_invariant_Deserialize)

theorem constructed_objects_valid_or_canonical_witness:
  "PQPubKey_new oqs_accepting [1, 2, 3] DILITHIUM3 = PQPubKey_default
   \<and> PQPubKey_IsValid oqs_accepting (PQPubKey_new oqs_accepting (replicate 897 0) FALCON512)
   \<and> pk_invariant oqs_accepting (PQPubKey_new oqs_accepting (replicate 897 0) FALCON512)
   \<and> pk_invariant oqs_accepting (PQPubKey_new oqs_accepting [1, 2, 3] DILITHIUM3)
   \<and> PQSignature_new oqs_accepting [1, 2, 3] 7 = PQSignature_default
   \<and> sig_invariant oqs_accepting (PQSignature_new oqs_accepting [1, 2, 3] 7)"
  using constructed_objects_valid_or_canonical [of oqs_accepting "[1, 2, 3]" DILITHIUM3]
    constructed_objects_valid_or_canonical [of oqs_accepting "replicate 897 0" FALCON512]
    constructed_objects_valid_or_canonical [of oqs_accepting "[1, 2, 3]" 7]
  by (simp add: PQPubKey_new_def PQPubKey_IsValid_def GetPubKeySize_def PQPubKey_default_def
      PQSignature_new_def PQSignature_IsValid_def GetSignatureSize_def PQSignature_default_def
      GetOQSAlgorithmName_def oqs_accepting_def DILITHIUM3_def FALCON512_def UNKNOWN_def)

lemma canonical_invalid_default: "canonical_invalid lib PQPrivKey_default hash"
  by (simp add: canonical_invalid_def PQPrivKey_Sign_def) (simp add: PQPrivKey_default_def)

lemma PQPrivKey_Clear_default: "PQPrivKey_Clear k = PQPrivKey_default"
  by (simp add: PQPrivKey_Clear_def PQPrivKey_default_def)

lemma move_construct_source: "snd (PQPrivKey_move_construct k) = PQPrivKey_default"
  by (simp add: PQPrivKey_move_construct_def PQPrivKey_default_def)

lemma move_construct_target: "fst (PQPrivKey_move_construct k) = k"
  by (simp add: PQPrivKey_move_construct_def)

lemma move_assign_source:
  "this \<noteq> other \<Longrightarrow> PQPrivKey_move_assign st this other other = PQPrivKey_default"
  by (simp add: PQPrivKey_move_assign_def Let_def PQPrivKey_default_def)

lemma move_assign_target:
  "this \<noteq> other \<Longrightarrow> PQPrivKey_move_assign st this other this = st other"
  by (simp add: PQPrivKey_move_assign_def Let_def PQPrivKey_Clear_default PQPrivKey_default_def)

text \<open>
  C10. The source of a move construction, the source of a move assignment to another
  object, and an object on which \<^verbatim>\<open>Clear()\<close> was called are in the canonical invalid
  state: algorithm \<^verbatim>\<open>UNKNOWN\<close>, empty key data, \<^verbatim>\<open>IsValid()\<close> false, and \<^verbatim>\<open>Sign\<close> returns
  the empty vector. (Assigning an object to itself moves nothing: the guard
  \<^verbatim>\<open>this != &other\<close> leaves it as it is.)
\<close>

theorem moved_from_or_cleared_is_invalid:
  "canonical_invalid lib (snd (PQPrivKey_move_construct k)) hash
   \<and> (this \<noteq> other \<longrightarrow> canonical_invalid lib (PQPrivKey_move_assign st this other other) hash)
   \<and> canonical_invalid lib (PQPrivKey_Clear k) hash"
  by (simp add: move_construct_source move_assign_source PQPrivKey_Clear_default
      canonical_invalid_default)

theorem moved_from_or_cleared_is_invalid_witness:
  "PQPrivKey_IsValid oqs_accepting example_privkey
   \<and> PQPrivKey_Sign oqs_accepting example_privkey [1, 2, 3, 4] = [0]
   \<and> canonical_invalid oqs_accepting (snd (PQPrivKey_move_construct example_privkey)) [1, 2, 3, 4]
   \<and> (0::nat) \<noteq> 1
   \<and> canonical_invalid oqs_accepting
        (PQPrivKey_move_assign ((\<lambda>_. PQPrivKey_default)(1 := example_privkey)) 0 1 1) [1, 2, 3, 4]
   \<and> PQPrivKey_move_assign ((\<lambda>_. PQPrivKey_default)(1 := example_privkey)) 0 1 0 = example_privkey
   \<and> canonical_invalid oqs_accepting (PQPrivKey_Clear example_privkey) [1, 2, 3, 4]"
proof -
  have v: "PQPrivKey_IsValid oqs_accepting example_privkey"
    by (simp add: example_privkey_def PQPrivKey_IsValid_def GetPrivKeySize_def
        GetOQSAlgorithmName_def oqs_accepting_def DILITHIUM3_def FALCON512_def UNKNOWN_def)
  have s: "PQPrivKey_Sign oqs_accepting example_privkey [1, 2, 3, 4] = [0]"
    using v by (simp add: PQPrivKey_Sign_def)
      (simp add: example_privkey_def GetOQSAlgorithmName_def oqs_accepting_def
        DILITHIUM3_def FALCON512_def)
  have t: "PQPrivKey_move_assign ((\<lambda>_. PQPrivKey_default)(1 := example_privkey)) 0 1 0 = example_privkey"
    by (simp add: move_assign_target)
  show ?thesis
    using v s t moved_from_or_cleared_is_invalid
      [of oqs_accepting example_privkey "[1, 2, 3, 4]" 0 1 "(\<lambda>_. PQPrivKey_default)(1 := example_privkey)"]
    by simp
qed

lemma self_move_assign_keeps_key:
  "PQPrivKey_move_assign st this this = st"
  by (simp add: PQPrivKey_move_assign_def)

section \<open>Signing, verification and the derived public key\<close>

lemma buffer_exact: "length out = n \<Longrightarrow> buffer n out = out"
  by (simp add: buffer_def)

lemma GetOQSAlgorithmName_Some_not_UNKNOWN:
  "GetOQSAlgorithmName algo = Some n \<Longrightarrow> algo \<noteq> UNKNOWN"
  by (auto simp add: GetOQSAlgorithmName_def UNKNOWN_def DILITHIUM3_def FALCON512_def
      split: if_splits)

text \<open>
  What \<^verbatim>\<open>GenerateKeyPair\<close> returns when the library succeeds and fills both buffers.
\<close>

lemma GenerateKeyPair_success:
  assumes n: "GetOQSAlgorithmName algo = Some n" and new: "sig_new lib n"
    and kp: "sig_keypair lib n = Some (pk, sk)"
    and lp: "length pk = length_public_key lib n" "0 < length pk"
    and ls: "length sk = length_secret_key lib n" "0 < length sk"
  shows "GenerateKeyPair lib algo
           = (\<lparr>sk_data = sk, sk_algorithm = algo, sk_sig_ctx = None\<rparr>,
              \<lparr>pk_data = pk, pk_algorithm = algo\<rparr>)"
proof -
  note u = GetOQSAlgorithmName_Some_not_UNKNOWN [OF n]
  have b: "buffer (length_secret_key lib n) sk = sk" "buffer (length_public_key lib n) pk = pk"
    using lp ls by (simp_all add: buffer_exact)
  have "PQPrivKey_new lib sk algo = \<lparr>sk_data = sk, sk_algorithm = algo, sk_sig_ctx = None\<rparr>"
    using n new ls u by (simp add: PQPrivKey_new_def PQPrivKey_IsValid_def GetPrivKeySize_def)
  moreover have "PQPubKey_new lib pk algo = \<lparr>pk_data = pk, pk_algorithm = algo\<rparr>"
    using n new lp u by (simp add: PQPubKey_new_def PQPubKey_IsValid_def GetPubKeySize_def)
  ultimately show ?thesis
    using n new kp by (simp add: GenerateKeyPair_def b)
qed

text \<open>
  A signature made by the generated private key verifies against the generated public
  key when the library signs and accepts its own signature.
\<close>

lemma Verify_generated_pubkey:
  assumes n: "GetOQSAlgorithmName algo = Some n" and new: "sig_new lib n"
    and kp: "sig_keypair lib n = Some (pk, sk)"
    and lp: "length pk = length_public_key lib n" "0 < length pk"
    and ls: "length sk = length_secret_key lib n" "0 < length sk"
    and sg: "sig_sign lib n hash sk = Some s" "s \<noteq> []" "length s \<le> length_signature lib n"
    and vf: "sig_verify lib n hash s pk"
  shows "PQSignature_Verify lib
           (PQSignature_new lib (PQPrivKey_Sign lib (fst (GenerateKeyPair lib algo)) hash) algo)
           hash (snd (GenerateKeyPair lib algo))"
proof -
  note u = GetOQSAlgorithmName_Some_not_UNKNOWN [OF n]
  note g = GenerateKeyPair_success [OF n new kp lp ls]
  have s: "PQPrivKey_Sign lib \<lparr>sk_data = sk, sk_algorithm = algo, sk_sig_ctx = None\<rparr> hash = s"
    using n new ls u sg(1)
    by (simp add: PQPrivKey_Sign_def PQPrivKey_IsValid_def GetPrivKeySize_def)
  have "0 < length s" using sg(2) by simp
  then have "0 < length_signature lib n" using sg(3) by linarith
  then have v: "PQSignature_IsValid lib \<lparr>sig_data = s, sig_algorithm = algo\<rparr>"
    using n new u sg
    by (simp add: PQSignature_IsValid_def GetSignatureSize_def)
  have p: "PQPubKey_IsValid lib \<lparr>pk_data = pk, pk_algorithm = algo\<rparr>"
    using n new lp u by (simp add: PQPubKey_IsValid_def GetPubKeySize_def)
  show ?thesis
    using n new vf v p
    by (simp add: g s PQSignature_new_def PQSignature_Verify_def)
qed

text \<open>
  The public key that \<^verbatim>\<open>GetPubKey\<close> derives from the generated private key is made of the
  last bytes of the secret key: the public key that the library generated does not enter.
\<close>

lemma GetPubKey_generated:
  assumes n: "GetOQSAlgorithmName algo = Some n" and new: "sig_new lib n"
    and kp: "sig_keypair lib n = Some (pk, sk)"
    and lp: "length pk = length_public_key lib n" "0 < length pk"
    and ls: "length sk = length_secret_key lib n" "0 < length sk"
    and le: "length pk \<le> length sk"
  shows "PQPrivKey_GetPubKey lib (fst (GenerateKeyPair lib algo))
           = \<lparr>pk_data = drop (length sk - length pk) sk, pk_algorithm = algo\<rparr>"
proof -
  note u = GetOQSAlgorithmName_Some_not_UNKNOWN [OF n]
  note g = GenerateKeyPair_success [OF n new kp lp ls]
  have v: "PQPrivKey_IsValid lib \<lparr>sk_data = sk, sk_algorithm = algo, sk_sig_ctx = None\<rparr>"
    using n new ls u by (simp add: PQPrivKey_IsValid_def GetPrivKeySize_def)
  have "PQPubKey_new lib (drop (length sk - length pk) sk) algo
          = \<lparr>pk_data = drop (length sk - length pk) sk, pk_algorithm = algo\<rparr>"
    using n new lp u le by (simp add: PQPubKey_new_def PQPubKey_IsValid_def GetPubKeySize_def)
  then show ?thesis
    using n new v lp le by (simp add: g PQPrivKey_GetPubKey_def Let_def)
qed

text \<open>The contract that \<open>oqs_keyed\<close> keeps.\<close>

lemma oqs_keyed_contract:
  assumes "sig_keypair oqs_keyed n = Some (pk, sk)"
  shows "sig_verify oqs_keyed n hash s pk' \<longleftrightarrow> pk' = pk \<and> sig_sign oqs_keyed n hash sk = Some s"
    and "sig_sign oqs_keyed n hash sk = Some s \<Longrightarrow> sig_sign oqs_keyed n hash' sk = Some s
           \<Longrightarrow> hash' = hash"
  using assms by (cases n; auto simp add: oqs_keyed_def split: if_splits)+

lemma oqs_keyed_signs:
  "sig_keypair oqs_keyed n = Some (pk, sk) \<Longrightarrow> length hash \<le> 64
     \<Longrightarrow> sig_sign oqs_keyed n hash sk = Some (3 # hash)"
  by (cases n) (auto simp add: oqs_keyed_def)

lemma GenerateKeyPair_keyed:
  "GenerateKeyPair oqs_keyed DILITHIUM3
     = (\<lparr>sk_data = replicate 4000 2, sk_algorithm = DILITHIUM3, sk_sig_ctx = None\<rparr>,
        \<lparr>pk_data = replicate 1952 1, pk_algorithm = DILITHIUM3\<rparr>)"
  "GenerateKeyPair oqs_keyed FALCON512
     = (\<lparr>sk_data = replicate 1281 2, sk_algorithm = FALCON512, sk_sig_ctx = None\<rparr>,
        \<lparr>pk_data = replicate 897 1, pk_algorithm = FALCON512\<rparr>)"
  by (rule GenerateKeyPair_success [where n = OQS_SIG_alg_dilithium_3];
      simp add: GetOQSAlgorithmName_def oqs_keyed_def)
    (rule GenerateKeyPair_success [where n = OQS_SIG_alg_falcon_512];
      simp add: GetOQSAlgorithmName_def oqs_keyed_def FALCON512_def DILITHIUM3_def)

lemma GetPubKey_keyed:
  "PQPrivKey_GetPubKey oqs_keyed (fst (GenerateKeyPair oqs_keyed DILITHIUM3))
     = \<lparr>pk_data = replicate 1952 2, pk_algorithm = DILITHIUM3\<rparr>"
  "PQPrivKey_GetPubKey oqs_keyed (fst (GenerateKeyPair oqs_keyed FALCON512))
     = \<lparr>pk_data = replicate 897 2, pk_algorithm = FALCON512\<rparr>"
proof -
  have "PQPrivKey_GetPubKey oqs_keyed (fst (GenerateKeyPair oqs_keyed DILITHIUM3))
          = \<lparr>pk_data = drop (length (replicate 4000 (2::byte)) - length (replicate 1952 (1::byte)))
                         (replicate 4000 2), pk_algorithm = DILITHIUM3\<rparr>"
    by (rule GetPubKey_generated [where n = OQS_SIG_alg_dilithium_3];
        simp add: GetOQSAlgorithmName_def oqs_keyed_def)
  then show "PQPrivKey_GetPubKey oqs_keyed (fst (GenerateKeyPair oqs_keyed DILITHIUM3))
     = \<lparr>pk_data = replicate 1952 2, pk_algorithm = DILITHIUM3\<rparr>"
    by simp
  have "PQPrivKey_GetPubKey oqs_keyed (fst (GenerateKeyPair oqs_keyed FALCON512))
          = \<lparr>pk_data = drop (length (replicate 1281 (2::byte)) - length (replicate 897 (1::byte)))
                         (replicate 1281 2), pk_algorithm = FALCON512\<rparr>"
    by (rule GetPubKey_generated [where n = OQS_SIG_alg_falcon_512];
        simp add: GetOQSAlgorithmName_def oqs_keyed_def FALCON512_def DILITHIUM3_def)
  then show "PQPrivKey_GetPubKey oqs_keyed (fst (GenerateKeyPair oqs_keyed FALCON512))
     = \<lparr>pk_data = replicate 897 2, pk_algorithm = FALCON512\<rparr>"
    by simp
qed

lemma test_objects:
  "test_privkey DILITHIUM3
     = \<lparr>sk_data = replicate 4000 2, sk_algorithm = DILITHIUM3, sk_sig_ctx = None\<rparr>"
  "test_pubkey DILITHIUM3 = \<lparr>pk_data = replicate 1952 1, pk_algorithm = DILITHIUM3\<rparr>"
  "test_privkey FALCON512
     = \<lparr>sk_data = replicate 1281 2, sk_algorithm = FALCON512, sk_sig_ctx = None\<rparr>"
  "test_pubkey FALCON512 = \<lparr>pk_data = replicate 897 1, pk_algorithm = FALCON512\<rparr>"
  by (simp_all only: test_privkey_def test_pubkey_def GenerateKeyPair_keyed fst_conv snd_conv)

lemma GetPubKey_test_privkey:
  "PQPrivKey_GetPubKey oqs_keyed (test_privkey DILITHIUM3)
     = \<lparr>pk_data = replicate 1952 2, pk_algorithm = DILITHIUM3\<rparr>"
  "PQPrivKey_GetPubKey oqs_keyed (test_privkey FALCON512)
     = \<lparr>pk_data = replicate 897 2, pk_algorithm = FALCON512\<rparr>"
  by (simp_all only: test_privkey_def GetPubKey_keyed)

lemma Sign_test_privkey:
  "PQPrivKey_Sign oqs_keyed (test_privkey DILITHIUM3) test_message = 3 # test_message"
  "PQPrivKey_Sign oqs_keyed (test_privkey FALCON512) test_message = 3 # test_message"
  unfolding test_objects
  by (simp_all add: PQPrivKey_Sign_def PQPrivKey_IsValid_def
      GetPrivKeySize_def GetOQSAlgorithmName_def oqs_keyed_def test_message_def
      DILITHIUM3_def FALCON512_def UNKNOWN_def)

lemma test_signature_eq:
  "test_signature DILITHIUM3 = \<lparr>sig_data = 3 # test_message, sig_algorithm = DILITHIUM3\<rparr>"
  "test_signature FALCON512 = \<lparr>sig_data = 3 # test_message, sig_algorithm = FALCON512\<rparr>"
  unfolding test_signature_def Sign_test_privkey
  by (simp_all add: PQSignature_new_def PQSignature_IsValid_def GetSignatureSize_def
      GetOQSAlgorithmName_def oqs_keyed_def test_message_def
      DILITHIUM3_def FALCON512_def UNKNOWN_def)

text \<open>
  C5 at a failing input: it fails at its first step, for a library that keeps its
  contract. With \<open>oqs_keyed\<close>, for Dilithium3 and for Falcon-512, the key pair of
  \<^verbatim>\<open>GenerateKeyPair\<close> is valid, the signature of the test message by the private key is
  valid and verifies against the generated public key; the public key that \<^verbatim>\<open>GetPubKey\<close>
  derives from the private key is valid too, but it is not the generated one, and the
  signature does not verify against it.
\<close>

theorem Sign_not_verified_by_GetPubKey:
  "PQPrivKey_IsValid oqs_keyed (test_privkey DILITHIUM3)
   \<and> PQPubKey_IsValid oqs_keyed (test_pubkey DILITHIUM3)
   \<and> PQSignature_IsValid oqs_keyed (test_signature DILITHIUM3)
   \<and> PQSignature_Verify oqs_keyed (test_signature DILITHIUM3) test_message
       (test_pubkey DILITHIUM3)
   \<and> PQPubKey_IsValid oqs_keyed (PQPrivKey_GetPubKey oqs_keyed (test_privkey DILITHIUM3))
   \<and> PQPrivKey_GetPubKey oqs_keyed (test_privkey DILITHIUM3) \<noteq> test_pubkey DILITHIUM3
   \<and> \<not> PQSignature_Verify oqs_keyed (test_signature DILITHIUM3) test_message
         (PQPrivKey_GetPubKey oqs_keyed (test_privkey DILITHIUM3))
   \<and> PQPrivKey_IsValid oqs_keyed (test_privkey FALCON512)
   \<and> PQPubKey_IsValid oqs_keyed (test_pubkey FALCON512)
   \<and> PQSignature_IsValid oqs_keyed (test_signature FALCON512)
   \<and> PQSignature_Verify oqs_keyed (test_signature FALCON512) test_message
       (test_pubkey FALCON512)
   \<and> PQPubKey_IsValid oqs_keyed (PQPrivKey_GetPubKey oqs_keyed (test_privkey FALCON512))
   \<and> PQPrivKey_GetPubKey oqs_keyed (test_privkey FALCON512) \<noteq> test_pubkey FALCON512
   \<and> \<not> PQSignature_Verify oqs_keyed (test_signature FALCON512) test_message
         (PQPrivKey_GetPubKey oqs_keyed (test_privkey FALCON512))"
  unfolding GetPubKey_test_privkey test_signature_eq
  unfolding test_objects
  by (simp add: PQPrivKey_IsValid_def PQPubKey_IsValid_def PQSignature_IsValid_def
      PQSignature_Verify_def GetPrivKeySize_def GetPubKeySize_def GetSignatureSize_def
      GetOQSAlgorithmName_def oqs_keyed_def test_message_def
      DILITHIUM3_def FALCON512_def UNKNOWN_def)

theorem Sign_not_verified_by_GetPubKey_witness:
  "PQSignature_Verify oqs_keyed (test_signature DILITHIUM3) [0x01, 0x02, 0x03, 0x04]
     \<lparr>pk_data = replicate 1952 1, pk_algorithm = DILITHIUM3\<rparr>
   \<and> pk_data (PQPrivKey_GetPubKey oqs_keyed (test_privkey DILITHIUM3)) = replicate 1952 2
   \<and> \<not> PQSignature_Verify oqs_keyed (test_signature DILITHIUM3) [0x01, 0x02, 0x03, 0x04]
         \<lparr>pk_data = replicate 1952 2, pk_algorithm = DILITHIUM3\<rparr>"
  using Sign_not_verified_by_GetPubKey
  unfolding GetPubKey_test_privkey
  unfolding test_objects test_message_def
  by simp
section \<open>Bit-group conversion: what the loops compute, and the round trip\<close>

declare ConvertBits_emit.simps [simp del]

lemma ConvertBits_emit_done:
  "\<not> (0 < tobits \<and> tobits \<le> bits) \<Longrightarrow> ConvertBits_emit tobits acc bits = (bits, [])"
  by (subst ConvertBits_emit.simps) auto

lemma ConvertBits_emit_more:
  "0 < tobits \<Longrightarrow> tobits \<le> bits \<Longrightarrow>
     ConvertBits_emit tobits acc bits =
       (case ConvertBits_emit tobits acc (bits - tobits) of
          (bits', out) \<Rightarrow> (bits', of_nat (drop_bit (bits - tobits) acc AND (2 ^ tobits - 1)) # out))"
  by (subst ConvertBits_emit.simps) simp

lemma and_mask_nat: "(x::nat) AND (2 ^ n - 1) = x mod 2 ^ n"
  by (metis take_bit_eq_mask mask_eq_exp_minus_1 take_bit_eq_mod)

lemma group_value_append:
  "group_value w (xs @ ys) = group_value w xs * 2 ^ (w * length ys) + group_value w ys"
  by (induction xs) (simp_all add: algebra_simps power_add)

lemma mod_split_nat: "(x::nat) mod 2 ^ (a + b) = (x div 2 ^ a mod 2 ^ b) * 2 ^ a + x mod 2 ^ a"
  by (simp add: power_add mod_mult2_eq algebra_simps)

lemma unat_group:
  assumes "w \<le> 8"
  shows "unat (of_nat (x mod 2 ^ w) :: byte) = x mod 2 ^ w"
proof -
  have "x mod 2 ^ w < 2 ^ w" by simp
  also have "(2::nat) ^ w \<le> 2 ^ 8" using assms by (intro power_increasing) simp_all
  finally have "x mod 2 ^ w < 2 ^ LENGTH(8)" by simp
  then show ?thesis by (simp add: unat_of_nat)
qed

lemma emit_spec:
  assumes "0 < t" "t \<le> 8" "ConvertBits_emit t acc bits = (bits', out)"
  shows "acc mod 2 ^ bits = group_value t out * 2 ^ bits' + acc mod 2 ^ bits'
       \<and> bits = t * length out + bits' \<and> bits' < t \<and> (\<forall>v \<in> set out. unat v < 2 ^ t)"
  using assms
proof (induction t acc bits arbitrary: bits' out rule: ConvertBits_emit.induct)
  case (1 tobits acc bits)
  show ?case
  proof (cases "tobits \<le> bits")
    case False
    with 1(2,4) show ?thesis by (simp add: ConvertBits_emit_done)
  next
    case True
    obtain b1 o1 where r: "ConvertBits_emit tobits acc (bits - tobits) = (b1, o1)"
      by (cases "ConvertBits_emit tobits acc (bits - tobits)")
    from 1(4) True 1(2) r have b: "bits' = b1"
      and out: "out = of_nat (drop_bit (bits - tobits) acc AND (2 ^ tobits - 1)) # o1"
      by (simp_all add: ConvertBits_emit_more)
    have "acc mod 2 ^ (bits - tobits) = group_value tobits o1 * 2 ^ b1 + acc mod 2 ^ b1
      \<and> bits - tobits = tobits * length o1 + b1 \<and> b1 < tobits \<and> (\<forall>v \<in> set o1. unat v < 2 ^ tobits)"
      using 1(1) [OF _ 1(2) 1(3) r] True 1(2) by blast
    then have ih: "acc mod 2 ^ (bits - tobits) = group_value tobits o1 * 2 ^ b1 + acc mod 2 ^ b1"
      "bits - tobits = tobits * length o1 + b1" "b1 < tobits" "\<forall>v \<in> set o1. unat v < 2 ^ tobits"
      by blast+
    let ?o = "of_nat (drop_bit (bits - tobits) acc AND (2 ^ tobits - 1)) :: byte"
    have o: "unat ?o = acc div 2 ^ (bits - tobits) mod 2 ^ tobits"
      unfolding and_mask_nat drop_bit_eq_div by (rule unat_group [OF 1(3)])
    have "acc mod 2 ^ bits = acc mod 2 ^ ((bits - tobits) + tobits)" using True by simp
    also have "\<dots> = unat ?o * 2 ^ (bits - tobits) + acc mod 2 ^ (bits - tobits)"
      unfolding o by (rule mod_split_nat)
    also have "\<dots> = unat ?o * 2 ^ (tobits * length o1 + b1) + (group_value tobits o1 * 2 ^ b1 + acc mod 2 ^ b1)"
      using ih(1,2) by simp
    also have "\<dots> = group_value tobits (?o # o1) * 2 ^ b1 + acc mod 2 ^ b1"
      by (simp add: algebra_simps power_add)
    finally have 1: "acc mod 2 ^ bits = group_value tobits out * 2 ^ bits' + acc mod 2 ^ bits'"
      by (simp add: out b)
    have 2: "bits = tobits * length out + bits'" using ih(2) True by (simp add: out b)
    have 3: "\<forall>v \<in> set out. unat v < 2 ^ tobits" using ih(4) o by (simp add: out)
    show ?thesis using 1 2 3 ih(3) b by simp
  qed
qed

lemma push_bit_or_add:
  assumes "v < 2 ^ f"
  shows "push_bit f (a::nat) OR v = a * 2 ^ f + v"
proof -
  have v: "take_bit f v = v" using assms by (simp add: take_bit_nat_eq_self)
  have "push_bit f a + v = push_bit f a OR v"
  proof (rule disjunctive_add)
    fix n
    have "bit v n \<Longrightarrow> n < f" using v by (metis bit_take_bit_iff)
    then show "\<not> bit (push_bit f a) n \<or> \<not> bit v n" by (auto simp add: bit_push_bit_iff)
  qed
  then show ?thesis by (simp add: push_bit_eq_mult)
qed

lemma feed_mod:
  assumes "v < 2 ^ f" "bits < t"
  shows "((push_bit f (acc::nat) OR v) AND (2 ^ (f + t - 1) - 1)) mod 2 ^ (bits + f)
           = (acc mod 2 ^ bits) * 2 ^ f + v"
proof -
  let ?X = "acc * 2 ^ f + v"
  have le: "bits + f \<le> f + t - 1" using assms(2) by simp
  have "((push_bit f acc OR v) AND (2 ^ (f + t - 1) - 1)) mod 2 ^ (bits + f)
          = (?X mod 2 ^ (f + t - 1)) mod 2 ^ (bits + f)"
    unfolding and_mask_nat push_bit_or_add [OF assms(1)] ..
  also have "\<dots> = ?X mod 2 ^ (bits + f)"
    using le by (simp add: mod_mod_cancel le_imp_power_dvd)
  also have "\<dots> = ?X mod 2 ^ (f + bits)" by (simp add: add.commute)
  also have "\<dots> = (?X div 2 ^ f mod 2 ^ bits) * 2 ^ f + ?X mod 2 ^ f"
    by (rule mod_split_nat)
  also have "?X div 2 ^ f = acc" using assms(1) by simp
  also have "?X mod 2 ^ f = v" using assms(1) by simp
  finally show ?thesis .
qed

lemma loop_spec:
  assumes "0 < t" "t \<le> 8" "bits < t" "\<forall>v \<in> set vs. unat v < 2 ^ f"
    "ConvertBits_loop f t acc bits vs = (acc', bits', out)"
  shows "(acc mod 2 ^ bits) * 2 ^ (f * length vs) + group_value f vs
           = group_value t out * 2 ^ bits' + acc' mod 2 ^ bits'
       \<and> bits + f * length vs = t * length out + bits' \<and> bits' < t
       \<and> (\<forall>v \<in> set out. unat v < 2 ^ t)"
  using assms(3-)
proof (induction vs arbitrary: acc bits acc' bits' out)
  case Nil
  then show ?case by simp
next
  case (Cons v rest)
  let ?acc1 = "(push_bit f acc OR unat v) AND (2 ^ (f + t - 1) - 1)"
  obtain b1 o1 where e: "ConvertBits_emit t ?acc1 (bits + f) = (b1, o1)"
    by (cases "ConvertBits_emit t ?acc1 (bits + f)")
  obtain a2 b2 o2 where l: "ConvertBits_loop f t ?acc1 b1 rest = (a2, b2, o2)"
    by (cases "ConvertBits_loop f t ?acc1 b1 rest")
  from Cons.prems(3) e l have res: "acc' = a2" "bits' = b2" "out = o1 @ o2"
    by (simp_all add: Let_def)
  have v: "unat v < 2 ^ f" and rest: "\<forall>v \<in> set rest. unat v < 2 ^ f"
    using Cons.prems(2) by simp_all
  have "?acc1 mod 2 ^ (bits + f) = group_value t o1 * 2 ^ b1 + ?acc1 mod 2 ^ b1
      \<and> bits + f = t * length o1 + b1 \<and> b1 < t \<and> (\<forall>v \<in> set o1. unat v < 2 ^ t)"
    by (rule emit_spec [OF assms(1,2) e])
  then have em: "?acc1 mod 2 ^ (bits + f) = group_value t o1 * 2 ^ b1 + ?acc1 mod 2 ^ b1"
    "bits + f = t * length o1 + b1" "b1 < t" "\<forall>v \<in> set o1. unat v < 2 ^ t"
    by blast+
  have "(?acc1 mod 2 ^ b1) * 2 ^ (f * length rest) + group_value f rest
           = group_value t o2 * 2 ^ b2 + a2 mod 2 ^ b2
       \<and> b1 + f * length rest = t * length o2 + b2 \<and> b2 < t
       \<and> (\<forall>v \<in> set o2. unat v < 2 ^ t)"
    by (rule Cons.IH [OF em(3) rest l])
  then have ih: "(?acc1 mod 2 ^ b1) * 2 ^ (f * length rest) + group_value f rest
           = group_value t o2 * 2 ^ b2 + a2 mod 2 ^ b2"
    "b1 + f * length rest = t * length o2 + b2" "b2 < t" "\<forall>v \<in> set o2. unat v < 2 ^ t"
    by blast+
  have fm: "?acc1 mod 2 ^ (bits + f) = (acc mod 2 ^ bits) * 2 ^ f + unat v"
    by (rule feed_mod [OF v Cons.prems(1)])
  have "(acc mod 2 ^ bits) * 2 ^ (f * length (v # rest)) + group_value f (v # rest)
      = ((acc mod 2 ^ bits) * 2 ^ f + unat v) * 2 ^ (f * length rest) + group_value f rest"
    by (simp add: algebra_simps power_add)
  also have "\<dots> = (group_value t o1 * 2 ^ b1 + ?acc1 mod 2 ^ b1) * 2 ^ (f * length rest)
                     + group_value f rest"
    using fm em(1) by simp
  also have "\<dots> = group_value t o1 * 2 ^ (b1 + f * length rest)
                     + ((?acc1 mod 2 ^ b1) * 2 ^ (f * length rest) + group_value f rest)"
    by (simp add: algebra_simps power_add)
  also have "\<dots> = group_value t o1 * 2 ^ (t * length o2 + b2)
                     + (group_value t o2 * 2 ^ b2 + a2 mod 2 ^ b2)"
    unfolding ih(1) ih(2) ..
  also have "\<dots> = group_value t (o1 @ o2) * 2 ^ b2 + a2 mod 2 ^ b2"
    by (simp add: group_value_append algebra_simps power_add)
  finally have 1: "(acc mod 2 ^ bits) * 2 ^ (f * length (v # rest)) + group_value f (v # rest)
      = group_value t out * 2 ^ bits' + acc' mod 2 ^ bits'"
    by (simp add: res)
  have 2: "bits + f * length (v # rest) = t * length out + bits'"
    using em(2) ih(2) by (simp add: res algebra_simps)
  show ?case using 1 2 ih(3,4) em(4) by (auto simp add: res)
qed

lemma group_value_bound:
  "\<forall>v \<in> set xs. unat v < 2 ^ w \<Longrightarrow> group_value w xs < 2 ^ (w * length xs)"
proof (induction xs)
  case Nil
  then show ?case by simp
next
  case (Cons x xs)
  have "unat x + 1 \<le> 2 ^ w" using Cons.prems by simp
  then have "(unat x + 1) * 2 ^ (w * length xs) \<le> 2 ^ w * 2 ^ (w * length xs)"
    by (rule mult_right_mono) simp
  moreover have "group_value w xs < 2 ^ (w * length xs)" using Cons by simp
  ultimately show ?case by (simp add: algebra_simps power_add)
qed

lemma group_value_inj:
  assumes "length xs = length ys" "\<forall>v \<in> set xs. unat v < 2 ^ w" "\<forall>v \<in> set ys. unat v < 2 ^ w"
    "group_value w xs = group_value w ys"
  shows "xs = ys"
  using assms
proof (induction xs ys rule: list_induct2)
  case Nil
  then show ?case by simp
next
  case (Cons x xs y ys)
  let ?m = "(2::nat) ^ (w * length ys)"
  have bx: "group_value w xs < ?m" using group_value_bound [of xs w] Cons.prems(1) Cons.hyps by simp
  have bys: "group_value w ys < ?m" using group_value_bound [of ys w] Cons.prems(2) by simp
  have eq: "unat x * ?m + group_value w xs = unat y * ?m + group_value w ys"
    using Cons.prems(3) Cons.hyps by simp
  have "(unat x * ?m + group_value w xs) div ?m = unat x" using bx by simp
  moreover have "(unat y * ?m + group_value w ys) div ?m = unat y" using bys by simp
  ultimately have xy: "unat x = unat y" using eq by simp
  then have "group_value w xs = group_value w ys" using eq by simp
  then have "xs = ys" using Cons by simp
  moreover have "x = y" using xy by (simp add: word_unat_eq_iff)
  ultimately show ?case by simp
qed

lemma pad_mod:
  assumes "b \<le> k"
  shows "(push_bit (k - b) (acc::nat) AND (2 ^ k - 1)) = (acc mod 2 ^ b) * 2 ^ (k - b)"
proof -
  have "(acc * 2 ^ (k - b)) mod (2 ^ b * 2 ^ (k - b)) = (acc mod 2 ^ b) * 2 ^ (k - b)"
    by (rule mult_mod_left [symmetric])
  moreover have "(2::nat) ^ b * 2 ^ (k - b) = 2 ^ k" using assms by (simp flip: power_add)
  ultimately show ?thesis unfolding and_mask_nat push_bit_eq_mult by simp
qed

lemma bytes_bound: "\<forall>v \<in> set (xs::bytes). unat v < 2 ^ 8"
  using unsigned_less [where 'a = nat and 'b = 8] by auto

lemma ConvertBits_8_5:
  obtains G p where "ConvertBits 8 5 True xs = Some G" "p < 5"
    "group_value 5 G = group_value 8 xs * 2 ^ p" "5 * length G = 8 * length xs + p"
    "\<forall>v \<in> set G. unat v < 2 ^ 5"
proof -
  obtain acc bits out where l: "ConvertBits_loop 8 5 0 0 xs = (acc, bits, out)"
    by (cases "ConvertBits_loop 8 5 0 0 xs")
  have "(0 mod 2 ^ 0) * 2 ^ (8 * length xs) + group_value 8 xs
           = group_value 5 out * 2 ^ bits + acc mod 2 ^ bits
       \<and> 0 + 8 * length xs = 5 * length out + bits \<and> bits < 5
       \<and> (\<forall>v \<in> set out. unat v < 2 ^ 5)"
    by (rule loop_spec [OF _ _ _ bytes_bound l]) simp_all
  then have sp: "group_value 8 xs = group_value 5 out * 2 ^ bits + acc mod 2 ^ bits"
    "8 * length xs = 5 * length out + bits" "bits < 5" "\<forall>v \<in> set out. unat v < 2 ^ 5"
    by simp_all
  show ?thesis
  proof (cases "bits = 0")
    case True
    have "ConvertBits 8 5 True xs = Some out" using l True by (simp add: ConvertBits_def)
    moreover have "group_value 5 out = group_value 8 xs * 2 ^ 0" using sp(1) True by simp
    moreover have "5 * length out = 8 * length xs + 0" using sp(2) True by simp
    ultimately show ?thesis using that [of out 0] sp(4) by simp
  next
    case False
    let ?g = "of_nat (push_bit (5 - bits) acc AND (2 ^ 5 - 1)) :: byte"
    have c: "ConvertBits 8 5 True xs = Some (out @ [?g])"
      using l False by (simp add: ConvertBits_def)
    have pm: "push_bit (5 - bits) acc AND (2 ^ 5 - 1) = (acc mod 2 ^ bits) * 2 ^ (5 - bits)"
      using sp(3) by (intro pad_mod) simp
    have "(acc mod 2 ^ bits) * 2 ^ (5 - bits) < 2 ^ bits * 2 ^ (5 - bits)"
      by (rule mult_strict_right_mono) simp_all
    also have "(2::nat) ^ bits * 2 ^ (5 - bits) = 2 ^ 5" using sp(3) by (simp flip: power_add)
    finally have lt: "(acc mod 2 ^ bits) * 2 ^ (5 - bits) < 2 ^ 5" .
    have "unat (of_nat ((acc mod 2 ^ bits) * 2 ^ (5 - bits)) :: byte)
            = ((acc mod 2 ^ bits) * 2 ^ (5 - bits)) mod 2 ^ LENGTH(8)"
      by (rule unat_of_nat)
    also have "\<dots> = (acc mod 2 ^ bits) * 2 ^ (5 - bits)" using lt by simp
    finally have g: "unat ?g = (acc mod 2 ^ bits) * 2 ^ (5 - bits)"
      unfolding pm .
    have p5: "(2::nat) ^ 5 = 2 ^ bits * 2 ^ (5 - bits)" using sp(3) by (simp flip: power_add)
    have "group_value 5 (out @ [?g]) = group_value 5 out * 2 ^ 5 + (acc mod 2 ^ bits) * 2 ^ (5 - bits)"
      unfolding group_value_append using g by simp
    also have "\<dots> = group_value 5 out * (2 ^ bits * 2 ^ (5 - bits)) + (acc mod 2 ^ bits) * 2 ^ (5 - bits)"
      by (simp only: p5)
    also have "\<dots> = group_value 8 xs * 2 ^ (5 - bits)"
      unfolding sp(1) by (simp add: algebra_simps)
    finally have v: "group_value 5 (out @ [?g]) = group_value 8 xs * 2 ^ (5 - bits)" .
    have n: "5 * length (out @ [?g]) = 8 * length xs + (5 - bits)" using sp(2,3) by simp
    have b: "\<forall>v \<in> set (out @ [?g]). unat v < 2 ^ 5" using sp(4) g lt by simp
    show ?thesis using that [OF c _ v n b] False sp(3) by simp
  qed
qed

lemma ConvertBits_5_8:
  assumes "\<forall>v \<in> set G. unat v < 2 ^ 5" "p < 5" "group_value 5 G = group_value 8 xs * 2 ^ p"
    "5 * length G = 8 * length xs + p"
  shows "ConvertBits 5 8 False G = Some xs"
proof -
  obtain acc bits out where l: "ConvertBits_loop 5 8 0 0 G = (acc, bits, out)"
    by (cases "ConvertBits_loop 5 8 0 0 G")
  have "(0 mod 2 ^ 0) * 2 ^ (5 * length G) + group_value 5 G
           = group_value 8 out * 2 ^ bits + acc mod 2 ^ bits
       \<and> 0 + 5 * length G = 8 * length out + bits \<and> bits < 8
       \<and> (\<forall>v \<in> set out. unat v < 2 ^ 8)"
    by (rule loop_spec [OF _ _ _ assms(1) l]) simp_all
  then have sp: "group_value 5 G = group_value 8 out * 2 ^ bits + acc mod 2 ^ bits"
    "5 * length G = 8 * length out + bits" "bits < 8"
    by simp_all
  have len: "length out = length xs"
    using sp(2,3) assms(2,4) by linarith
  have bp: "bits = p"
    using sp(2) assms(4) len by linarith
  have e: "group_value 8 xs * 2 ^ p = group_value 8 out * 2 ^ p + acc mod 2 ^ p"
    using sp(1) assms(3) bp by simp
  have "(group_value 8 xs * 2 ^ p) mod 2 ^ p = 0" by simp
  then have z: "acc mod 2 ^ p = 0" unfolding e by simp
  then have "group_value 8 xs = group_value 8 out" using e by simp
  then have "out = xs"
    using len group_value_inj [of out xs 8] bytes_bound by simp
  moreover have "push_bit (8 - bits) acc AND (2 ^ 8 - 1) = 0"
    using pad_mod [of bits 8 acc] sp(3) z bp by simp
  ultimately show ?thesis using l bp assms(2) by (simp add: ConvertBits_def)
qed

lemma ConvertBits_roundtrip:
  obtains G where "ConvertBits 8 5 True xs = Some G" "ConvertBits 5 8 False G = Some xs"
    "\<forall>v \<in> set G. unat v < 32" "length G = (8 * length xs + 4) div 5"
proof -
  obtain G p where g: "ConvertBits 8 5 True xs = Some G" "p < 5"
    "group_value 5 G = group_value 8 xs * 2 ^ p" "5 * length G = 8 * length xs + p"
    "\<forall>v \<in> set G. unat v < 2 ^ 5"
    by (rule ConvertBits_8_5)
  have "ConvertBits 5 8 False G = Some xs" by (rule ConvertBits_5_8 [OF g(5,2,3,4)])
  moreover have "length G = (8 * length xs + 4) div 5"
  proof -
    have "8 * length xs + 4 = (4 - p) + length G * 5" using g(2,4) by linarith
    moreover have "((4 - p) + length G * 5) div 5 = length G" using g(2) by simp
    ultimately show ?thesis by simp
  qed
  ultimately show ?thesis using that g(1,5) by simp
qed

section \<open>The Bech32m checksum is linear in its last six values\<close>

lemma and_1ffffff: "(c::32 word) AND 0x1ffffff = take_bit 25 c"
  by (simp add: take_bit_eq_mask mask_eq_exp_minus_1)

lemma and_31: "(c::32 word) AND 31 = take_bit 5 c"
  by (simp add: take_bit_eq_mask mask_eq_exp_minus_1)

lemma PolyMod_step_alt:
  "PolyMod_step c v = push_bit 5 (take_bit 25 c) XOR ucast v XOR PolyMod_gen c"
  unfolding PolyMod_step_def PolyMod_gen_def Let_def and_1ffffff
  by (simp add: xor.assoc xor.commute xor.left_commute)

lemma PolyMod_gen_30: "take_bit 30 (PolyMod_gen c) = PolyMod_gen c"
  by (simp add: PolyMod_gen_def take_bit_xor)

lemma PolyMod_step_value:
  "PolyMod_step c v = PolyMod_step c 0 XOR ucast v"
  unfolding PolyMod_step_alt by (simp add: xor.assoc xor.commute xor.left_commute)

lemma PolyMod_step_xor:
  assumes "take_bit k d = d" "k \<le> 25"
  shows "PolyMod_step (c XOR d) v = PolyMod_step c v XOR push_bit 5 d"
proof -
  have 1: "drop_bit 25 d = 0"
  proof (rule bit_word_eqI)
    fix n assume "n < LENGTH(32)"
    have "bit d (25 + n) \<Longrightarrow> 25 + n < k" using assms(1) by (metis bit_take_bit_iff)
    then show "bit (drop_bit 25 d) n = bit (0::32 word) n" using assms(2) by (auto simp add: bit_simps)
  qed
  have 2: "take_bit 25 d = d"
  proof (rule bit_word_eqI)
    fix n assume "n < LENGTH(32)"
    have "bit d n \<Longrightarrow> n < k" using assms(1) by (metis bit_take_bit_iff)
    then show "bit (take_bit 25 d) n = bit d n" using assms(2) by (auto simp add: bit_simps)
  qed
  have 3: "PolyMod_gen (c XOR d) = PolyMod_gen c"
    unfolding PolyMod_gen_def by (simp add: drop_bit_xor 1)
  have 4: "push_bit 5 (take_bit 25 (c XOR d)) = push_bit 5 (take_bit 25 c) XOR push_bit 5 d"
    by (simp add: take_bit_xor push_bit_xor 2)
  show ?thesis
    unfolding PolyMod_step_alt 3 4 by (simp add: xor.assoc xor.commute xor.left_commute)
qed

lemma PolyMod_fold_xor:
  assumes "take_bit k d = d" "k + 5 * length vs \<le> 30"
  shows "foldl PolyMod_step (c XOR d) vs = foldl PolyMod_step c vs XOR push_bit (5 * length vs) d"
  using assms
proof (induction vs arbitrary: c d k)
  case Nil
  then show ?case by simp
next
  case (Cons v rest)
  have k: "k \<le> 25" using Cons.prems(2) by simp
  have d': "take_bit (k + 5) (push_bit 5 d) = push_bit 5 d"
    using Cons.prems(1) by (simp add: take_bit_push_bit)
  have "foldl PolyMod_step (c XOR d) (v # rest)
          = foldl PolyMod_step (PolyMod_step c v XOR push_bit 5 d) rest"
    by (simp add: PolyMod_step_xor [OF Cons.prems(1) k])
  also have "\<dots> = foldl PolyMod_step (PolyMod_step c v) rest XOR push_bit (5 * length rest) (push_bit 5 d)"
    using Cons.prems(2) by (intro Cons.IH [OF d']) simp
  finally show ?case by (simp add: push_bit_push_bit add.commute)
qed

lemma take_bit_unat_self:
  fixes w :: "'a::len word"
  assumes "unat w < 2 ^ k"
  shows "take_bit k w = w"
proof -
  have "unat (take_bit k w) = take_bit k (unat w)" by (rule unsigned_take_bit_eq)
  also have "\<dots> = unat w" using assms by (simp add: take_bit_nat_eq_self)
  finally show ?thesis by (simp add: word_unat_eq_iff)
qed

lemma ucast_byte_fits:
  fixes v :: byte
  assumes "unat v < 2 ^ k"
  shows "take_bit k (ucast v :: 32 word) = ucast v"
proof -
  have "take_bit k v = v" using assms by (rule take_bit_unat_self)
  then show ?thesis by (metis unsigned_take_bit_eq)
qed

lemma PolyMod_fold_pack:
  assumes "\<forall>v \<in> set vs. unat v < 32" "length vs \<le> 6"
  shows "foldl PolyMod_step c vs = foldl PolyMod_step c (replicate (length vs) 0) XOR pack5 vs"
  using assms
proof (induction vs arbitrary: c)
  case Nil
  then show ?case by simp
next
  case (Cons v rest)
  have "unat v < 2 ^ 5" using Cons.prems(1) by simp
  then have v: "take_bit 5 (ucast v :: 32 word) = ucast v" by (rule ucast_byte_fits)
  have "foldl PolyMod_step c (v # rest) = foldl PolyMod_step (PolyMod_step c 0 XOR ucast v) rest"
    by (simp add: PolyMod_step_value [of c v])
  also have "\<dots> = foldl PolyMod_step (PolyMod_step c 0) rest XOR push_bit (5 * length rest) (ucast v)"
    using Cons.prems(2) by (intro PolyMod_fold_xor [OF v]) simp
  also have "foldl PolyMod_step (PolyMod_step c 0) rest
               = foldl PolyMod_step (PolyMod_step c 0) (replicate (length rest) 0) XOR pack5 rest"
    using Cons.prems by (intro Cons.IH) simp_all
  finally show ?case by (simp add: xor.assoc xor.commute xor.left_commute)
qed

lemma PolyMod_step_30: "take_bit 30 (PolyMod_step c v) = PolyMod_step c v"
proof -
  have "unat v < 2 ^ 30" using unsigned_less [of v, where 'a = nat] by simp
  then have v: "take_bit 30 (ucast v :: 32 word) = ucast v" by (rule ucast_byte_fits)
  show ?thesis
    unfolding PolyMod_step_alt by (simp add: take_bit_xor v PolyMod_gen_30 take_bit_push_bit)
qed

lemma PolyMod_fold_30:
  "vs \<noteq> [] \<Longrightarrow> take_bit 30 (foldl PolyMod_step c vs) = foldl PolyMod_step c vs"
  by (cases vs rule: rev_cases) (simp_all add: PolyMod_step_30)

lemma upt_6: "[0..<6] = [0, 1, 2, 3, 4, 5]"
  by (simp add: upt_rec)

lemma take_bit_split:
  fixes x :: "32 word"
  shows "take_bit (n + k) x = push_bit n (take_bit k (drop_bit n x)) XOR take_bit n x"
  by (rule bit_word_eqI) (auto simp add: bit_simps)

lemma checksum_pack:
  fixes md :: "32 word"
  assumes "take_bit 30 md = md"
  shows "pack5 (map (\<lambda>i. ucast (drop_bit (5 * (5 - i)) md AND 31)) [0..<6]) = md"
proof -
  have u: "\<And>s. (ucast (ucast (drop_bit s md AND 31) :: byte) :: 32 word) = take_bit 5 (drop_bit s md)"
    unfolding and_31 by (rule bit_word_eqI) (auto simp add: bit_simps)
  have "take_bit 30 md = push_bit 25 (take_bit 5 (drop_bit 25 md)) XOR take_bit 25 md"
    using take_bit_split [of 25 5 md] by simp
  also have "take_bit 25 md = push_bit 20 (take_bit 5 (drop_bit 20 md)) XOR take_bit 20 md"
    using take_bit_split [of 20 5 md] by simp
  also have "take_bit 20 md = push_bit 15 (take_bit 5 (drop_bit 15 md)) XOR take_bit 15 md"
    using take_bit_split [of 15 5 md] by simp
  also have "take_bit 15 md = push_bit 10 (take_bit 5 (drop_bit 10 md)) XOR take_bit 10 md"
    using take_bit_split [of 10 5 md] by simp
  also have "take_bit 10 md = push_bit 5 (take_bit 5 (drop_bit 5 md)) XOR take_bit 5 md"
    using take_bit_split [of 5 5 md] by simp
  finally have t: "take_bit 30 md =
     push_bit 25 (take_bit 5 (drop_bit 25 md)) XOR
     (push_bit 20 (take_bit 5 (drop_bit 20 md)) XOR
     (push_bit 15 (take_bit 5 (drop_bit 15 md)) XOR
     (push_bit 10 (take_bit 5 (drop_bit 10 md)) XOR
     (push_bit 5 (take_bit 5 (drop_bit 5 md)) XOR take_bit 5 md))))" .
  have "pack5 (map (\<lambda>i. ucast (drop_bit (5 * (5 - i)) md AND 31)) [0..<6]) =
     push_bit 25 (take_bit 5 (drop_bit 25 md)) XOR
     (push_bit 20 (take_bit 5 (drop_bit 20 md)) XOR
     (push_bit 15 (take_bit 5 (drop_bit 15 md)) XOR
     (push_bit 10 (take_bit 5 (drop_bit 10 md)) XOR
     (push_bit 5 (take_bit 5 (drop_bit 5 md)) XOR take_bit 5 md))))"
    unfolding upt_6 using u [of 0] by (simp add: u)
  then show ?thesis using assms t by simp
qed

lemma checksum_5bit:
  fixes md :: "32 word"
  shows "unat (ucast (drop_bit s md AND 31) :: byte) < 32"
proof -
  have "(ucast (ucast (drop_bit s md AND 31) :: byte) :: 32 word) = take_bit 5 (drop_bit s md)"
    unfolding and_31 by (rule bit_word_eqI) (auto simp add: bit_simps)
  then have "take_bit 5 (ucast (drop_bit s md AND 31) :: byte) = ucast (drop_bit s md AND 31)"
    unfolding and_31 by (metis take_bit_take_bit min.idem unsigned_take_bit_eq word_eq_iff_unsigned)
  then have "unat (ucast (drop_bit s md AND 31) :: byte) = take_bit 5 (unat (ucast (drop_bit s md AND 31) :: byte))"
    by (metis unsigned_take_bit_eq)
  also have "\<dots> < 2 ^ 5" by (rule take_bit_nat_less_exp)
  finally show ?thesis by simp
qed

lemma Prepare_append:
  "PreparePolynomialCoefficients hrp (xs @ ys) = PreparePolynomialCoefficients hrp xs @ ys"
  by (simp add: PreparePolynomialCoefficients_def)

lemma checksum_map_5bit:
  fixes md :: "32 word"
  shows "\<forall>v \<in> set (map (\<lambda>i. ucast (drop_bit (f i) md AND 31) :: byte) xs). unat v < 32"
  by (induction xs) (simp_all add: checksum_5bit del: drop_bit_xor)

lemma CreateChecksum_props:
  "length (CreateChecksum enc hrp values) = 6"
  "\<forall>v \<in> set (CreateChecksum enc hrp values). unat v < 32"
  unfolding CreateChecksum_def Let_def by (simp, rule checksum_map_5bit)

lemma PolyMod_with_checksum:
  assumes "length cs = 6" "\<forall>v \<in> set cs. unat v < 32"
  shows "PolyMod (PreparePolynomialCoefficients hrp (values @ cs))
           = PolyMod (PreparePolynomialCoefficients hrp values @ replicate CHECKSUM_SIZE 0) XOR pack5 cs"
proof -
  have "PolyMod (PreparePolynomialCoefficients hrp (values @ cs))
          = foldl PolyMod_step (foldl PolyMod_step 1 (PreparePolynomialCoefficients hrp values)) cs"
    by (simp add: PolyMod_def Prepare_append)
  also have "\<dots> = foldl PolyMod_step (foldl PolyMod_step 1 (PreparePolynomialCoefficients hrp values))
                       (replicate (length cs) 0) XOR pack5 cs"
    using assms by (intro PolyMod_fold_pack) simp_all
  finally show ?thesis by (simp add: PolyMod_def CHECKSUM_SIZE_def assms(1))
qed

lemma pack5_CreateChecksum:
  "pack5 (CreateChecksum enc hrp values)
     = PolyMod (PreparePolynomialCoefficients hrp values @ replicate CHECKSUM_SIZE 0) XOR EncodingConstant enc"
proof -
  let ?P = "PolyMod (PreparePolynomialCoefficients hrp values @ replicate CHECKSUM_SIZE 0)"
  have "take_bit 30 ?P = ?P"
    unfolding PolyMod_def by (rule PolyMod_fold_30) (simp add: CHECKSUM_SIZE_def)
  moreover have "take_bit 30 (EncodingConstant enc) = EncodingConstant enc"
    by (simp add: EncodingConstant_def)
  ultimately have "take_bit 30 (?P XOR EncodingConstant enc) = ?P XOR EncodingConstant enc"
    by (simp add: take_bit_xor)
  then show ?thesis
    unfolding CreateChecksum_def Let_def by (rule checksum_pack)
qed

lemma VerifyChecksum_CreateChecksum:
  "VerifyChecksum hrp (values @ CreateChecksum BECH32M hrp values) = BECH32M"
proof -
  have "PolyMod (PreparePolynomialCoefficients hrp (values @ CreateChecksum BECH32M hrp values))
          = EncodingConstant BECH32M"
    unfolding PolyMod_with_checksum [OF CreateChecksum_props] pack5_CreateChecksum
    by (simp add: xor.assoc [symmetric])
  then show ?thesis by (simp add: VerifyChecksum_def EncodingConstant_def)
qed

section \<open>Character checks and the character table\<close>

lemma CheckCharacters_step_cases:
  "CheckCharacters_step (l, u, e) (i, c) =
     (if is_lower c then (if u then (l, u, e @ [i]) else (True, u, e))
      else if is_upper c then (if l then (l, u, e @ [i]) else (l, True, e))
      else if \<not> in_range c then (l, u, e @ [i])
      else (l, u, e))"
  by (auto simp add: CheckCharacters_step_def is_lower_def is_upper_def in_range_def Let_def)

lemma CheckCharacters_invariant:
  "case foldl CheckCharacters_step (False, False, []) (zip [0..<length str] str) of
     (l, u, e) \<Rightarrow>
       (e = [] \<longrightarrow> l = (\<exists>c \<in> set str. is_lower c) \<and> u = (\<exists>c \<in> set str. is_upper c)
                  \<and> well_cased str)
       \<and> (e \<noteq> [] \<longrightarrow> \<not> well_cased str)"
proof (induction str rule: rev_induct)
  case Nil
  then show ?case by (simp add: well_cased_def)
next
  case (snoc x xs)
  obtain l u e where st: "foldl CheckCharacters_step (False, False, []) (zip [0..<length xs] xs) = (l, u, e)"
    by (cases "foldl CheckCharacters_step (False, False, []) (zip [0..<length xs] xs)")
  have z: "zip [0..<length (xs @ [x])] (xs @ [x]) = zip [0..<length xs] xs @ [(length xs, x)]"
    by simp
  have lu: "is_lower x \<Longrightarrow> \<not> is_upper x" "is_lower x \<Longrightarrow> in_range x" "is_upper x \<Longrightarrow> in_range x"
    by (auto simp add: is_lower_def is_upper_def in_range_def)
  show ?case
    using snoc st lu unfolding z
    by (auto simp add: CheckCharacters_step_cases well_cased_def)
qed

lemma CheckCharacters_iff: "CheckCharacters str \<longleftrightarrow> well_cased str"
  using CheckCharacters_invariant [of str]
  by (auto simp add: CheckCharacters_def split: prod.splits)

lemma rfind_None: "c \<notin> set xs \<Longrightarrow> rfind c xs = None"
  by (induction xs) auto

lemma rfind_last: "c \<notin> set ys \<Longrightarrow> rfind c (xs @ c # ys) = Some (length xs)"
  by (induction xs) (simp_all add: rfind_None)

lemma CHARSET_forward:
  "\<forall>n \<in> set [0..<32]. CHARSET_REV ! of_char (CHARSET ! n) = int n \<and> in_range (CHARSET ! n)
      \<and> \<not> is_upper (CHARSET ! n) \<and> CHARSET ! n \<noteq> CHR ''1''"
  by (simp add: upt_rec CHARSET_def CHARSET_REV_def in_range_def is_upper_def)

lemma CHARSET_backward:
  "\<forall>k \<in> set [33..<127]. (k < 65 \<or> 90 < k) \<longrightarrow> CHARSET_REV ! k \<noteq> - 1 \<longrightarrow>
      0 \<le> CHARSET_REV ! k \<and> CHARSET_REV ! k < 32 \<and> of_char (CHARSET ! nat (CHARSET_REV ! k)) = k"
  by (simp add: upt_rec CHARSET_def CHARSET_REV_def)

section \<open>Decoding an encoded string\<close>

lemma CHARSET_char:
  assumes "unat (v::byte) < 32"
  shows "CHARSET_REV ! of_char (CHARSET ! unat v) = int (unat v)" "in_range (CHARSET ! unat v)"
    "\<not> is_upper (CHARSET ! unat v)" "CHARSET ! unat v \<noteq> CHR ''1''"
  using CHARSET_forward assms by auto

lemma data_chars:
  assumes "\<forall>v \<in> set (vs::bytes). unat v < 32"
  shows "\<forall>c \<in> set (map (\<lambda>v. CHARSET ! unat v) vs). in_range c \<and> \<not> is_upper c \<and> c \<noteq> CHR ''1''"
    "map (\<lambda>c. CHARSET_REV ! of_char c) (map (\<lambda>v. CHARSET ! unat v) vs) = map (\<lambda>v. int (unat v)) vs"
  using assms by (auto simp add: CHARSET_char)

lemma word_of_int_unat_map: "map word_of_int (map (\<lambda>v. int (unat v)) vs) = (vs::bytes)"
  by (induction vs) simp_all

lemma EBC_HRP_chars:
  "\<forall>c \<in> set EBC_HRP. in_range c \<and> \<not> is_upper c" "map LowerCase EBC_HRP = EBC_HRP" "length EBC_HRP = 4"
  "in_range CHR ''1''" "\<not> is_upper CHR ''1''"
  by (simp_all add: EBC_HRP_def in_range_def is_upper_def LowerCase_def)

lemma bech32_Decode_eq:
  assumes "CheckCharacters str" "rfind CHR ''1'' str = Some pos" "length str \<le> limit" "0 < pos"
    "pos + CHECKSUM_SIZE < length str"
    "map (\<lambda>c. CHARSET_REV ! of_char c) (drop (pos + 1) str) = revs" "- 1 \<notin> set revs"
    "map word_of_int revs = vals" "map LowerCase (take pos str) = hrp"
  shows "bech32_Decode str limit =
           (if VerifyChecksum hrp vals = INVALID then DecodeResult_default
            else \<lparr>dec_encoding = VerifyChecksum hrp vals, dec_hrp = hrp,
                   dec_data = take (length vals - CHECKSUM_SIZE) vals\<rparr>)"
  using assms by (simp add: bech32_Decode_def Let_def)

lemma bech32_Decode_data_string:
  assumes "\<forall>v \<in> set vals. unat v < 32" "6 \<le> length vals" "length vals \<le> 85"
  shows "bech32_Decode (EBC_HRP @ CHR ''1'' # map (\<lambda>v. CHARSET ! unat v) vals) 90 =
           (if VerifyChecksum EBC_HRP vals = INVALID then DecodeResult_default
            else \<lparr>dec_encoding = VerifyChecksum EBC_HRP vals, dec_hrp = EBC_HRP,
                   dec_data = take (length vals - CHECKSUM_SIZE) vals\<rparr>)"
proof -
  let ?D = "map (\<lambda>v. CHARSET ! unat v) vals"
  let ?str = "EBC_HRP @ CHR ''1'' # ?D"
  have D: "\<forall>c \<in> set ?D. in_range c \<and> \<not> is_upper c \<and> c \<noteq> CHR ''1''"
    using data_chars [OF assms(1)] by blast
  have cc: "CheckCharacters ?str"
    unfolding CheckCharacters_iff well_cased_def using D EBC_HRP_chars by auto
  have "CHR ''1'' \<notin> set ?D" using D by blast
  then have rf: "rfind CHR ''1'' ?str = Some 4"
    using rfind_last [of "CHR ''1''" ?D EBC_HRP] by (simp add: EBC_HRP_chars(3))
  have len: "length ?str = 5 + length vals"
    by (simp add: EBC_HRP_chars(3))
  have dr: "drop (4 + 1) ?str = ?D" "take 4 ?str = EBC_HRP"
    by (simp_all add: EBC_HRP_chars(3))
  have revs: "map (\<lambda>c. CHARSET_REV ! of_char c) ?D = map (\<lambda>v. int (unat v)) vals"
    using data_chars [OF assms(1)] by blast
  have nm: "- 1 \<notin> set (map (\<lambda>v. int (unat v)) vals)"
  proof -
    have "\<forall>x \<in> set (map (\<lambda>v. int (unat v)) vals). 0 \<le> x" by auto
    then show ?thesis by fastforce
  qed
  have va: "map word_of_int (map (\<lambda>v. int (unat v)) vals) = vals"
    by (rule word_of_int_unat_map)
  show ?thesis
  proof (rule bech32_Decode_eq [OF cc rf _ _ _ _ nm va])
    show "length ?str \<le> 90" using len assms(3) by simp
    show "(0::nat) < 4" by simp
    show "4 + CHECKSUM_SIZE < length ?str" using len assms(2) by (simp add: CHECKSUM_SIZE_def)
    show "map (\<lambda>c. CHARSET_REV ! of_char c) (drop (4 + 1) ?str) = map (\<lambda>v. int (unat v)) vals"
      unfolding dr(1) by (rule revs)
    show "map LowerCase (take 4 ?str) = EBC_HRP"
      unfolding dr(2) by (rule EBC_HRP_chars(2))
  qed
qed

lemma bech32_Decode_Encode:
  assumes "\<forall>v \<in> set values. unat v < 32" "length values \<le> 79"
  shows "bech32_Decode (bech32_Encode BECH32M EBC_HRP values) 90
           = \<lparr>dec_encoding = BECH32M, dec_hrp = EBC_HRP, dec_data = values\<rparr>"
proof -
  let ?cs = "CreateChecksum BECH32M EBC_HRP values"
  have cs: "length ?cs = 6" "\<forall>v \<in> set ?cs. unat v < 32"
    using CreateChecksum_props [of BECH32M EBC_HRP "values"] by blast+
  have lt32: "\<forall>v \<in> set (values @ ?cs). unat v < 32" using assms(1) cs(2) by auto
  have enc: "bech32_Encode BECH32M EBC_HRP values
               = EBC_HRP @ CHR ''1'' # map (\<lambda>v. CHARSET ! unat v) (values @ ?cs)"
    by (simp add: bech32_Encode_def Let_def)
  have vc: "VerifyChecksum EBC_HRP (values @ ?cs) = BECH32M"
    by (rule VerifyChecksum_CreateChecksum)
  have "bech32_Decode (EBC_HRP @ CHR ''1'' # map (\<lambda>v. CHARSET ! unat v) (values @ ?cs)) 90 =
           (if VerifyChecksum EBC_HRP (values @ ?cs) = INVALID then DecodeResult_default
            else \<lparr>dec_encoding = VerifyChecksum EBC_HRP (values @ ?cs), dec_hrp = EBC_HRP,
                   dec_data = take (length (values @ ?cs) - CHECKSUM_SIZE) (values @ ?cs)\<rparr>)"
    using assms(2) cs(1) by (intro bech32_Decode_data_string [OF lt32]) simp_all
  then show ?thesis
    unfolding enc vc by (simp add: CHECKSUM_SIZE_def cs(1))
qed

section \<open>A changed checksum value is detected\<close>

lemma pack5_fits:
  "\<forall>v \<in> set xs. unat v < 32 \<Longrightarrow> take_bit (5 * length xs) (pack5 xs) = pack5 xs"
proof (induction xs)
  case Nil
  then show ?case by simp
next
  case (Cons x xs)
  have "unat x < 2 ^ 5" using Cons.prems by simp
  then have x: "take_bit 5 (ucast x :: 32 word) = ucast x" by (rule ucast_byte_fits)
  have p: "take_bit (5 * length xs) (pack5 xs) = pack5 xs" using Cons by simp
  have "take_bit (5 * length xs + 5) (take_bit (5 * length xs) (pack5 xs))
          = take_bit (min (5 * length xs + 5) (5 * length xs)) (pack5 xs)"
    by (rule take_bit_take_bit)
  also have "min (5 * length xs + 5) (5 * length xs) = 5 * length xs" by simp
  finally have p': "take_bit (5 * length xs + 5) (pack5 xs) = pack5 xs" by (simp only: p)
  have pp: "take_bit (5 * length xs + 5) (push_bit (5 * length xs) (ucast x :: 32 word))
          = push_bit (5 * length xs) (ucast x)"
    by (simp add: take_bit_push_bit x)
  have "take_bit (5 * length xs + 5) (push_bit (5 * length xs) (ucast x) XOR pack5 xs)
          = take_bit (5 * length xs + 5) (push_bit (5 * length xs) (ucast x :: 32 word))
            XOR take_bit (5 * length xs + 5) (pack5 xs)"
    by (rule take_bit_xor)
  also have "\<dots> = push_bit (5 * length xs) (ucast x) XOR pack5 xs" by (simp only: pp p')
  finally have "take_bit (5 * length xs + 5) (pack5 (x # xs)) = pack5 (x # xs)" by simp
  moreover have "5 * length (x # xs) = 5 * length xs + 5" by simp
  ultimately show ?case by (simp only:)
qed

lemma drop_push_small:
  fixes a :: "32 word"
  assumes "take_bit 5 a = a" "k \<le> 25"
  shows "drop_bit k (push_bit k a) = a"
proof (rule bit_word_eqI)
  fix n assume "n < LENGTH(32)"
  have "bit a n \<Longrightarrow> n < 5" using assms(1) by (metis bit_take_bit_iff)
  then show "bit (drop_bit k (push_bit k a)) n = bit a n"
    using assms(2) by (auto simp add: bit_simps)
qed

lemma pack5_inj:
  assumes "length xs = length ys" "length xs \<le> 6" "\<forall>v \<in> set xs. unat v < 32"
    "\<forall>v \<in> set ys. unat v < 32" "pack5 xs = pack5 ys"
  shows "xs = ys"
  using assms
proof (induction xs ys rule: list_induct2)
  case Nil
  then show ?case by simp
next
  case (Cons x xs y ys)
  let ?n = "5 * length ys"
  have px: "take_bit ?n (pack5 xs) = pack5 xs" using pack5_fits [of xs] Cons.prems(2) Cons.hyps by simp
  have py: "take_bit ?n (pack5 ys) = pack5 ys" using pack5_fits [of ys] Cons.prems(3) by simp
  have eq: "push_bit ?n (ucast x) XOR pack5 xs = push_bit ?n (ucast y) XOR pack5 ys"
    using Cons.prems(4) Cons.hyps by simp
  have "take_bit ?n (push_bit ?n (ucast x :: 32 word) XOR pack5 xs) = pack5 xs"
    by (simp add: take_bit_xor take_bit_push_bit px)
  moreover have "take_bit ?n (push_bit ?n (ucast y :: 32 word) XOR pack5 ys) = pack5 ys"
    by (simp add: take_bit_xor take_bit_push_bit py)
  ultimately have tl: "pack5 xs = pack5 ys" using eq by simp
  have eq': "push_bit ?n (ucast x) XOR pack5 ys = push_bit ?n (ucast y) XOR pack5 ys"
    using eq tl by simp
  have "push_bit ?n (ucast x :: 32 word) = (push_bit ?n (ucast x) XOR pack5 ys) XOR pack5 ys"
    by (simp add: xor.assoc)
  also have "\<dots> = (push_bit ?n (ucast y) XOR pack5 ys) XOR pack5 ys" by (simp only: eq')
  also have "\<dots> = push_bit ?n (ucast y)" by (simp add: xor.assoc)
  finally have e2: "push_bit ?n (ucast x :: 32 word) = push_bit ?n (ucast y)" .
  have ux: "unat x < 2 ^ 5" and uy: "unat y < 2 ^ 5" using Cons.prems(2,3) by simp_all
  have fx: "take_bit 5 (ucast x :: 32 word) = ucast x" by (rule ucast_byte_fits [OF ux])
  have fy: "take_bit 5 (ucast y :: 32 word) = ucast y" by (rule ucast_byte_fits [OF uy])
  have k: "?n \<le> 25" using Cons.prems(1) Cons.hyps by simp
  have "(ucast x :: 32 word) = drop_bit ?n (push_bit ?n (ucast x))"
    by (rule drop_push_small [OF fx k, symmetric])
  also have "\<dots> = drop_bit ?n (push_bit ?n (ucast y))" by (simp only: e2)
  also have "\<dots> = ucast y" by (rule drop_push_small [OF fy k])
  finally have uc: "(ucast x :: 32 word) = ucast y" .
  have "x = y"
  proof (rule bit_word_eqI)
    fix n assume "n < LENGTH(8)"
    then have "bit (ucast x :: 32 word) n = bit x n" "bit (ucast y :: 32 word) n = bit y n"
      by (simp_all add: bit_ucast_iff)
    then show "bit x n = bit y n" using uc by simp
  qed
  moreover have "xs = ys" using Cons tl by simp
  ultimately show ?case by simp
qed

lemma VerifyChecksum_altered:
  assumes "length cs' = 6" "\<forall>v \<in> set cs'. unat v < 32" "cs' \<noteq> CreateChecksum BECH32M EBC_HRP G"
  shows "VerifyChecksum EBC_HRP (G @ cs') \<noteq> BECH32M"
proof
  assume v: "VerifyChecksum EBC_HRP (G @ cs') = BECH32M"
  let ?P = "PolyMod (PreparePolynomialCoefficients EBC_HRP G @ replicate CHECKSUM_SIZE 0)"
  have "PolyMod (PreparePolynomialCoefficients EBC_HRP (G @ cs')) = EncodingConstant BECH32M"
    using v by (simp add: VerifyChecksum_def Let_def split: if_splits)
  then have "?P XOR pack5 cs' = EncodingConstant BECH32M"
    unfolding PolyMod_with_checksum [OF assms(1,2)] .
  then have "?P XOR (?P XOR pack5 cs') = ?P XOR EncodingConstant BECH32M" by simp
  then have "pack5 cs' = ?P XOR EncodingConstant BECH32M"
    by (simp add: xor.assoc [symmetric])
  then have "pack5 cs' = pack5 (CreateChecksum BECH32M EBC_HRP G)"
    by (simp only: pack5_CreateChecksum)
  then have "cs' = CreateChecksum BECH32M EBC_HRP G"
    using assms(1,2) CreateChecksum_props [of BECH32M EBC_HRP G]
    by (intro pack5_inj) simp_all
  then show False using assms(3) by simp
qed

lemma CHARSET_rev_char:
  assumes "in_range c" "\<not> is_upper c" "CHARSET_REV ! of_char c \<noteq> - 1"
  obtains w :: byte where "unat w < 32" "c = CHARSET ! unat w" "CHARSET_REV ! of_char c = int (unat w)"
proof -
  let ?k = "of_char c :: nat"
  have "33 \<le> ?k \<and> ?k < 127" using assms(1) by (simp add: in_range_def)
  then have k: "?k \<in> set [33..<127]" by (simp only: set_upt atLeastLessThan_iff)
  have nu: "?k < 65 \<or> 90 < ?k" using assms(2) by (auto simp add: is_upper_def)
  have "0 \<le> CHARSET_REV ! ?k \<and> CHARSET_REV ! ?k < 32 \<and> of_char (CHARSET ! nat (CHARSET_REV ! ?k)) = ?k"
    using CHARSET_backward k nu assms(3) by blast
  then have r: "0 \<le> CHARSET_REV ! ?k" "CHARSET_REV ! ?k < 32"
    "(of_char (CHARSET ! nat (CHARSET_REV ! ?k)) :: nat) = of_char c"
    by blast+
  let ?w = "word_of_int (CHARSET_REV ! ?k) :: byte"
  have u: "unat ?w = nat (CHARSET_REV ! ?k)"
    using r(1,2) by (simp add: unat_eq_nat_uint uint_word_of_int take_bit_int_eq_self)
  have "c = CHARSET ! unat ?w" using r(3) unfolding u by simp
  moreover have "unat ?w < 32" using r(1,2) unfolding u by simp
  moreover have "CHARSET_REV ! ?k = int (unat ?w)" using r(1) unfolding u by simp
  ultimately show ?thesis using that by blast
qed

lemma Decode_altered_checksum:
  assumes G: "\<forall>v \<in> set G. unat v < 32" "length G \<le> 79"
    and i: "length (bech32_Encode BECH32M EBC_HRP G) - 6 \<le> i" "i < length (bech32_Encode BECH32M EBC_HRP G)"
    and c: "c \<noteq> bech32_Encode BECH32M EBC_HRP G ! i"
  shows "dec_encoding (bech32_Decode ((bech32_Encode BECH32M EBC_HRP G)[i := c]) 90) \<noteq> BECH32M"
proof -
  let ?cs = "CreateChecksum BECH32M EBC_HRP G"
  let ?ch = "\<lambda>v::byte. CHARSET ! unat v"
  let ?P = "EBC_HRP @ CHR ''1'' # map ?ch G"
  let ?C = "map ?ch ?cs"
  let ?s = "bech32_Encode BECH32M EBC_HRP G"
  define j where "j = i - length ?P"
  have cs: "length ?cs = 6" "\<forall>v \<in> set ?cs. unat v < 32"
    using CreateChecksum_props [of BECH32M EBC_HRP G] by blast+
  have s: "?s = ?P @ ?C" by (simp add: bech32_Encode_def Let_def)
  have lenP: "length ?P = 5 + length G" by (simp add: EBC_HRP_chars(3))
  have lens: "length ?s = length ?P + 6" unfolding s by (simp add: cs(1))
  have ij: "i = length ?P + j" "j < 6" using i lens by (simp_all add: j_def)
  have s': "?s[i := c] = ?P @ ?C[j := c]"
    unfolding s ij(1) by (simp add: list_update_append)
  have si: "?s ! i = ?ch (?cs ! j)"
    unfolding s ij(1) using ij(2) cs(1) by (simp add: nth_append)
  have Cchars: "\<forall>x \<in> set ?C. in_range x \<and> \<not> is_upper x \<and> x \<noteq> CHR ''1''"
    using data_chars [OF cs(2)] by blast
  have Dchars: "\<forall>x \<in> set (map ?ch G). in_range x \<and> \<not> is_upper x \<and> x \<noteq> CHR ''1''"
    using data_chars [OF G(1)] by blast
  show ?thesis
  proof (cases "CheckCharacters (?s[i := c])")
    case False
    then show ?thesis by (simp add: bech32_Decode_def DecodeResult_default_def)
  next
    case True
    then have wc: "well_cased (?s[i := c])" by (simp add: CheckCharacters_iff)
    have cin: "c \<in> set (?s[i := c])" using i(2) by (rule set_update_memI)
    have "CHR ''e'' \<in> set (?s[i := c])" unfolding s' by (simp add: EBC_HRP_def)
    moreover have "is_lower CHR ''e''" by (simp add: is_lower_def)
    ultimately have "\<forall>x \<in> set (?s[i := c]). \<not> is_upper x"
      using wc unfolding well_cased_def by blast
    then have cu: "\<not> is_upper c" using cin by blast
    have cr: "in_range c" using wc cin unfolding well_cased_def by blast
    show ?thesis
    proof (cases "c = CHR ''1''")
      case True
      have "?C[j := c] = take j ?C @ c # drop (Suc j) ?C"
        using ij(2) cs(1) by (simp add: upd_conv_take_nth_drop)
      then have s'': "?s[i := c] = (?P @ take j ?C) @ CHR ''1'' # drop (Suc j) ?C"
        unfolding s' using True by simp
      have "CHR ''1'' \<notin> set (drop (Suc j) ?C)"
        using Cchars in_set_dropD by fast
      then have "rfind CHR ''1'' (?s[i := c]) = Some (length (?P @ take j ?C))"
        unfolding s'' by (rule rfind_last)
      moreover have "length (?P @ take j ?C) = i"
        using ij cs(1) by simp
      ultimately have rf: "rfind CHR ''1'' (?s[i := c]) = Some i" by simp
      have "i + CHECKSUM_SIZE \<ge> length (?s[i := c])"
        using i(1) by (simp add: CHECKSUM_SIZE_def)
      then show ?thesis
        using rf by (simp add: bech32_Decode_def DecodeResult_default_def)
    next
      case c1: False
      show ?thesis
      proof (cases "CHARSET_REV ! of_char c = - 1")
        case True
        have "set (?C[j := c]) \<subseteq> insert c (set ?C)" by (rule set_update_subset_insert)
        moreover have "CHR ''1'' \<notin> set ?C" using Cchars by blast
        ultimately have "CHR ''1'' \<notin> set (?C[j := c])" using c1 by blast
        moreover have "CHR ''1'' \<notin> set (map ?ch G)" using Dchars by blast
        ultimately have n1: "CHR ''1'' \<notin> set (map ?ch G @ ?C[j := c])"
          unfolding set_append by blast
        have rf: "rfind CHR ''1'' (?s[i := c]) = Some 4"
          unfolding s' using rfind_last [OF n1, of EBC_HRP] by (simp add: EBC_HRP_chars(3))
        have "c \<in> set (drop (4 + 1) (?s[i := c]))"
          unfolding s' using ij(2) cs(1) by (simp add: EBC_HRP_chars(3) set_update_memI)
        then have "- 1 \<in> set (map (\<lambda>c. CHARSET_REV ! of_char c) (drop (4 + 1) (?s[i := c])))"
          using True by force
        then show ?thesis
          using rf by (simp add: bech32_Decode_def DecodeResult_default_def Let_def)
      next
        case False
        obtain w :: byte where w: "unat w < 32" "c = CHARSET ! unat w"
          by (rule CHARSET_rev_char [OF cr cu False])
        have wne: "w \<noteq> ?cs ! j" using c si w(2) by auto
        let ?cs' = "?cs[j := w]"
        have cs': "length ?cs' = 6" "\<forall>v \<in> set ?cs'. unat v < 32" "?cs' \<noteq> ?cs"
        proof -
          show "length ?cs' = 6" using cs(1) by simp
          have "set ?cs' \<subseteq> insert w (set ?cs)" by (rule set_update_subset_insert)
          then show "\<forall>v \<in> set ?cs'. unat v < 32" using cs(2) w(1) by blast
          have "?cs' ! j = w" using ij(2) cs(1) by simp
          then show "?cs' \<noteq> ?cs" using wne by metis
        qed
        have "?C[j := c] = map ?ch ?cs'" unfolding w(2) by (simp add: map_update)
        then have s'': "?s[i := c] = EBC_HRP @ CHR ''1'' # map ?ch (G @ ?cs')"
          unfolding s' by simp
        have all: "\<forall>v \<in> set (G @ ?cs'). unat v < 32" using G(1) cs'(2) by auto
        have "bech32_Decode (?s[i := c]) 90 =
           (if VerifyChecksum EBC_HRP (G @ ?cs') = INVALID then DecodeResult_default
            else \<lparr>dec_encoding = VerifyChecksum EBC_HRP (G @ ?cs'), dec_hrp = EBC_HRP,
                   dec_data = take (length (G @ ?cs') - CHECKSUM_SIZE) (G @ ?cs')\<rparr>)"
          unfolding s'' using G(2) cs'(1) by (intro bech32_Decode_data_string [OF all]) simp_all
        moreover have "VerifyChecksum EBC_HRP (G @ ?cs') \<noteq> BECH32M"
          by (rule VerifyChecksum_altered [OF cs'])
        ultimately show ?thesis by (simp add: DecodeResult_default_def)
      qed
    qed
  qed
qed

section \<open>Properties of the address codec\<close>

lemma IsValid_length:
  "EBCAddress_IsValid a \<Longrightarrow> length (m_data a) = 20 \<or> length (m_data a) = 32"
  by (auto simp add: EBCAddress_IsValid_def EBC_PUBKEY_HASH_SIZE_def EBC_SCRIPT_HASH_SIZE_def
      split: if_splits)

lemma ToString_valid:
  assumes "EBCAddress_IsValid a"
  obtains G where "EBCAddress_ToString a = bech32_Encode BECH32M EBC_HRP G"
    "ConvertBits 5 8 False G = Some ([m_version a, word_of_int (m_algorithm a)] @ m_data a)"
    "\<forall>v \<in> set G. unat v < 32" "length G = 36 \<or> length G = 55"
proof -
  let ?d = "[m_version a, word_of_int (m_algorithm a)] @ m_data a"
  obtain G where g: "ConvertBits 8 5 True ?d = Some G" "ConvertBits 5 8 False G = Some ?d"
    "\<forall>v \<in> set G. unat v < 32" "length G = (8 * length ?d + 4) div 5"
    by (rule ConvertBits_roundtrip)
  have "EBCAddress_ToString a = bech32_Encode BECH32M EBC_HRP G"
    using assms g(1) by (simp add: EBCAddress_ToString_def)
  moreover have "length G = 36 \<or> length G = 55"
    using IsValid_length [OF assms] g(4) by auto
  ultimately show ?thesis using that g(2,3) by blast
qed

lemma FromString_ToString_byte:
  assumes "EBCAddress_IsValid a" "0 \<le> m_algorithm a" "m_algorithm a < 256"
  shows "EBCAddress_FromString (EBCAddress_ToString a) = a"
proof -
  obtain G where g: "EBCAddress_ToString a = bech32_Encode BECH32M EBC_HRP G"
    "ConvertBits 5 8 False G = Some ([m_version a, word_of_int (m_algorithm a)] @ m_data a)"
    "\<forall>v \<in> set G. unat v < 32" "length G = 36 \<or> length G = 55"
    by (rule ToString_valid [OF assms(1)])
  have dec: "bech32_Decode (bech32_Encode BECH32M EBC_HRP G) 90
           = \<lparr>dec_encoding = BECH32M, dec_hrp = EBC_HRP, dec_data = G\<rparr>"
    using g(3,4) by (intro bech32_Decode_Encode) auto
  have ne: "G \<noteq> []" using g(4) by auto
  have alg: "uint (word_of_int (m_algorithm a) :: byte) = m_algorithm a"
    using assms(2,3) by (simp add: uint_word_of_int take_bit_int_eq_self)
  have r: "\<lparr>m_version = m_version a, m_data = m_data a, m_algorithm = m_algorithm a\<rparr> = a" by simp
  show ?thesis
    unfolding g(1) EBCAddress_FromString_def dec
    using ne assms(1) by (simp add: g(2) alg Let_def r)
qed

section \<open>Locking scripts\<close>

lemmas version_defs = PQ_PUBKEY_def PQ_SCRIPT_def PQ_WITNESS_V0_def PQ_WITNESS_V1_def

lemmas algo_defs = DILITHIUM3_def FALCON512_def UNKNOWN_def

lemmas size_defs = EBC_PUBKEY_HASH_SIZE_def EBC_SCRIPT_HASH_SIZE_def

lemma example_addresses_valid:
  "EBCAddress_IsValid addr_dilithium" "EBCAddress_IsValid addr_falcon"
  "EBCAddress_IsValid addr_witness" "EBCAddress_IsValid addr_unrecognized"
  by (simp_all add: addr_dilithium_def addr_falcon_def addr_witness_def addr_unrecognized_def
      EBCAddress_IsValid_def version_defs algo_defs size_defs)

text \<open>
  C1 (as the code has it). The locking script of a valid address is determined by its
  version and its data alone: two valid addresses with the same version and data have
  the same script whatever their algorithms, and \<^verbatim>\<open>CreateP2PQPKHScript\<close> and
  \<^verbatim>\<open>CreateP2PQSHScript\<close> do not depend on their algorithm argument. The algorithm is
  carried by the address and its string, not by the script.
\<close>

theorem GetScript_ignores_algorithm:
  "m_version a = m_version b \<Longrightarrow> m_data a = m_data b \<Longrightarrow>
   EBCAddress_IsValid a \<Longrightarrow> EBCAddress_IsValid b \<Longrightarrow>
     EBCAddress_GetScript a = EBCAddress_GetScript b
     \<and> CreateP2PQPKHScript h algo1 = CreateP2PQPKHScript h algo2
     \<and> CreateP2PQSHScript h algo1 = CreateP2PQSHScript h algo2"
  by (simp add: EBCAddress_GetScript_def CreateP2PQPKHScript_def CreateP2PQSHScript_def)

theorem GetScript_ignores_algorithm_witness:
  "m_version addr_dilithium = m_version addr_falcon \<and> m_data addr_dilithium = m_data addr_falcon
   \<and> EBCAddress_IsValid addr_dilithium \<and> EBCAddress_IsValid addr_falcon
   \<and> EBCAddress_GetScript addr_dilithium = EBCAddress_GetScript addr_falcon
   \<and> EBCAddress_GetScript addr_falcon =
        [Op OP_DUP, Op OP_HASH160, Push (replicate 20 0), Op OP_EQUALVERIFY, Op OP_PQCHECKSIG]"
proof -
  have e: "m_version addr_dilithium = m_version addr_falcon" "m_data addr_dilithium = m_data addr_falcon"
    by (simp_all add: addr_dilithium_def addr_falcon_def)
  have s: "EBCAddress_GetScript addr_falcon =
        [Op OP_DUP, Op OP_HASH160, Push (replicate 20 0), Op OP_EQUALVERIFY, Op OP_PQCHECKSIG]"
    using example_addresses_valid(2)
    by (simp add: EBCAddress_GetScript_def CreateP2PQPKHScript_def) (simp add: addr_falcon_def)
  show ?thesis
    using e s example_addresses_valid(1,2)
      GetScript_ignores_algorithm [OF e example_addresses_valid(1,2)]
    by simp
qed

text \<open>
  C1 as stated fails: these two valid addresses differ in their algorithm only and have
  the same locking script.
\<close>

theorem GetScript_algorithm_counterexample:
  "EBCAddress_IsValid addr_dilithium \<and> EBCAddress_IsValid addr_falcon
   \<and> m_version addr_dilithium = m_version addr_falcon
   \<and> m_data addr_dilithium = m_data addr_falcon
   \<and> m_algorithm addr_dilithium \<noteq> m_algorithm addr_falcon
   \<and> EBCAddress_GetScript addr_dilithium = EBCAddress_GetScript addr_falcon"
  by (simp add: addr_dilithium_def addr_falcon_def EBCAddress_IsValid_def EBCAddress_GetScript_def
      CreateP2PQPKHScript_def version_defs algo_defs size_defs)

text \<open>
  What \<^verbatim>\<open>GetScript\<close> returns for a valid address: the key-hash template for
  \<^verbatim>\<open>PQ_PUBKEY\<close>, the script-hash template for \<^verbatim>\<open>PQ_SCRIPT\<close>, the empty script for the
  witness versions; it is a total function of the address alone.
\<close>

lemma GetScript_templates:
  "EBCAddress_IsValid a \<Longrightarrow>
     (m_version a = PQ_PUBKEY \<longrightarrow>
        EBCAddress_GetScript a =
          [Op OP_DUP, Op OP_HASH160, Push (m_data a), Op OP_EQUALVERIFY, Op OP_PQCHECKSIG])
     \<and> (m_version a = PQ_SCRIPT \<longrightarrow>
          EBCAddress_GetScript a = [Op OP_HASH256, Push (m_data a), Op OP_EQUAL])
     \<and> (m_version a = PQ_WITNESS_V0 \<or> m_version a = PQ_WITNESS_V1 \<longrightarrow> EBCAddress_GetScript a = [])
     \<and> (EBCAddress_GetScript a \<noteq> [] \<longleftrightarrow> m_version a = PQ_PUBKEY \<or> m_version a = PQ_SCRIPT)"
  by (auto simp add: EBCAddress_GetScript_def EBCAddress_IsValid_def CreateP2PQPKHScript_def
      CreateP2PQSHScript_def uint256_copy_def version_defs size_defs split: if_splits)

lemma GetScript_templates_examples:
  "EBCAddress_GetScript addr_falcon =
        [Op OP_DUP, Op OP_HASH160, Push (replicate 20 0), Op OP_EQUALVERIFY, Op OP_PQCHECKSIG]
   \<and> EBCAddress_IsValid (FromScriptHash (replicate 32 1) DILITHIUM3)
   \<and> EBCAddress_GetScript (FromScriptHash (replicate 32 1) DILITHIUM3) =
        [Op OP_HASH256, Push (replicate 32 1), Op OP_EQUAL]"
proof -
  have v: "EBCAddress_IsValid (FromScriptHash (replicate 32 1) DILITHIUM3)"
    by (simp add: FromScriptHash_def EBCAddress_IsValid_def version_defs algo_defs size_defs)
  show ?thesis
    using example_addresses_valid(2) v GetScript_templates [OF example_addresses_valid(2)]
      GetScript_templates [OF v]
    by (simp add: addr_falcon_def FromScriptHash_def version_defs)
qed

text \<open>
  C7 at a failing input. The address below, of witness version 0 with a 20-byte hash, is
  valid (\<^verbatim>\<open>IsValid\<close> accepts the witness versions with their hash sizes), and
  \<^verbatim>\<open>GetScript\<close> expands it to the empty script, not to a locking script template: the
  branch of the witness versions returns \<^verbatim>\<open>CScript()\<close>, as the branch of an invalid
  address does.
\<close>

theorem GetScript_witness_version_empty:
  "EBCAddress_IsValid addr_witness \<and> m_version addr_witness = PQ_WITNESS_V0
   \<and> EBCAddress_GetScript addr_witness = []
   \<and> EBCAddress_GetScript addr_witness = EBCAddress_GetScript EBCAddress_default"
  by (simp add: addr_witness_def EBCAddress_IsValid_def EBCAddress_GetScript_def
      EBCAddress_default_def version_defs algo_defs size_defs)

theorem GetScript_witness_version_empty_witness:
  "EBCAddress_IsValid addr_witness \<and> length (EBCAddress_GetScript addr_witness) = 0
   \<and> length (EBCAddress_GetScript addr_falcon) = 5"
proof -
  have "EBCAddress_GetScript addr_falcon =
        [Op OP_DUP, Op OP_HASH160, Push (replicate 20 0), Op OP_EQUALVERIFY, Op OP_PQCHECKSIG]"
    using GetScript_templates_examples by blast
  then show ?thesis using GetScript_witness_version_empty by simp
qed

section \<open>Decoding: unrecognised algorithm bytes, round trip, altered checksum\<close>

lemma replicate_20: "replicate 20 x = [x, x, x, x, x, x, x, x, x, x, x, x, x, x, x, x, x, x, x, x]"
  by (simp add: numeral_eq_Suc)

lemma replicate_6: "replicate 6 x = [x, x, x, x, x, x]"
  by (simp add: numeral_eq_Suc)

lemma Suc_fold: "Suc (Suc 0) = 2" "Suc (Suc (Suc 0)) = 3"
  by simp_all

lemma ToString_addr_unrecognized:
  "EBCAddress_ToString addr_unrecognized = ''ebc11qqrsqqqqqqqqqqqqqqqqqqqqqqqqqqqqqqqqz6pz9g''"
proof -
  have v: "EBCAddress_IsValid addr_unrecognized"
    by (simp add: addr_unrecognized_def EBCAddress_IsValid_def PQ_PUBKEY_def UNKNOWN_def
        EBC_PUBKEY_HASH_SIZE_def)
  have cb: "ConvertBits 8 5 True ([m_version addr_unrecognized, word_of_int (m_algorithm addr_unrecognized)]
              @ m_data addr_unrecognized)
     = Some [0, 0, 3, 16, 0, 0, 0, 0, 0, 0, 0, 0, 0, 0, 0, 0, 0, 0, 0, 0, 0, 0, 0, 0, 0, 0, 0, 0, 0, 0, 0, 0, 0, 0, 0, 0]"
    by (simp add: addr_unrecognized_def PQ_PUBKEY_def replicate_20 ConvertBits_def
        ConvertBits_emit_done ConvertBits_emit_more Suc_fold)
  have cs: "CreateChecksum BECH32M EBC_HRP [0, 0, 3, 16, 0, 0, 0, 0, 0, 0, 0, 0, 0, 0, 0, 0, 0, 0, 0, 0, 0, 0, 0, 0, 0, 0, 0, 0, 0, 0, 0, 0, 0, 0, 0, 0]
     = [2, 26, 1, 2, 5, 8]"
    by (simp add: CreateChecksum_def PreparePolynomialCoefficients_def EBC_HRP_def PolyMod_def
        PolyMod_step_def Let_def CHECKSUM_SIZE_def EncodingConstant_def upt_rec replicate_6)
  have enc: "bech32_Encode BECH32M EBC_HRP [0, 0, 3, 16, 0, 0, 0, 0, 0, 0, 0, 0, 0, 0, 0, 0, 0, 0, 0, 0, 0, 0, 0, 0, 0, 0, 0, 0, 0, 0, 0, 0, 0, 0, 0, 0]
     = ''ebc11qqrsqqqqqqqqqqqqqqqqqqqqqqqqqqqqqqqqz6pz9g''"
    by (simp only: bech32_Encode_def Let_def cs) (simp add: CHARSET_def EBC_HRP_def)
  show ?thesis
    unfolding EBCAddress_ToString_def Let_def cb using v by (simp add: enc)
qed

lemma ToString_addr_falcon:
  "EBCAddress_ToString addr_falcon = ''ebc11qqqsqqqqqqqqqqqqqqqqqqqqqqqqqqqqqqqqsrxjpw''"
proof -
  have v: "EBCAddress_IsValid addr_falcon"
    by (simp add: addr_falcon_def EBCAddress_IsValid_def PQ_PUBKEY_def UNKNOWN_def FALCON512_def
        EBC_PUBKEY_HASH_SIZE_def)
  have cb: "ConvertBits 8 5 True ([m_version addr_falcon, word_of_int (m_algorithm addr_falcon)]
              @ m_data addr_falcon)
     = Some [0, 0, 0, 16, 0, 0, 0, 0, 0, 0, 0, 0, 0, 0, 0, 0, 0, 0, 0, 0, 0, 0, 0, 0, 0, 0, 0, 0, 0, 0, 0, 0, 0, 0, 0, 0]"
    by (simp add: addr_falcon_def PQ_PUBKEY_def FALCON512_def replicate_20 ConvertBits_def
        ConvertBits_emit_done ConvertBits_emit_more Suc_fold)
  have cs: "CreateChecksum BECH32M EBC_HRP [0, 0, 0, 16, 0, 0, 0, 0, 0, 0, 0, 0, 0, 0, 0, 0, 0, 0, 0, 0, 0, 0, 0, 0, 0, 0, 0, 0, 0, 0, 0, 0, 0, 0, 0, 0]
     = [16, 3, 6, 18, 1, 14]"
    by (simp add: CreateChecksum_def PreparePolynomialCoefficients_def EBC_HRP_def PolyMod_def
        PolyMod_step_def Let_def CHECKSUM_SIZE_def EncodingConstant_def upt_rec replicate_6)
  have enc: "bech32_Encode BECH32M EBC_HRP [0, 0, 0, 16, 0, 0, 0, 0, 0, 0, 0, 0, 0, 0, 0, 0, 0, 0, 0, 0, 0, 0, 0, 0, 0, 0, 0, 0, 0, 0, 0, 0, 0, 0, 0, 0]
     = ''ebc11qqqsqqqqqqqqqqqqqqqqqqqqqqqqqqqqqqqqsrxjpw''"
    by (simp only: bech32_Encode_def Let_def cs) (simp add: CHARSET_def EBC_HRP_def)
  show ?thesis
    unfolding EBCAddress_ToString_def Let_def cb using v by (simp add: enc)
qed

text \<open>The strings of the test \<^verbatim>\<open>ebc_address_validation_test\<close> are invalid in the model too.\<close>

lemma ebc_address_validation_test:
  "\<not> IsValidEBCAddress ''''"
  "\<not> IsValidEBCAddress ''invalid''"
  "\<not> IsValidEBCAddress ''bc1qw508d6qejxtdg4y5r3zarvary0c5xw7kv8f3t4''"
proof -
  have d: "\<not> EBCAddress_IsValid EBCAddress_default"
    by (simp add: EBCAddress_IsValid_def EBCAddress_default_def)
  have 1: "bech32_Decode '''' 90 = DecodeResult_default"
    by (simp add: bech32_Decode_def CheckCharacters_def)
  have 2: "bech32_Decode ''invalid'' 90 = DecodeResult_default"
    by (simp add: bech32_Decode_def CheckCharacters_def CheckCharacters_step_def upt_rec)
  have 3: "dec_hrp (bech32_Decode ''bc1qw508d6qejxtdg4y5r3zarvary0c5xw7kv8f3t4'' 90) \<noteq> EBC_HRP"
    by (simp add: bech32_Decode_def DecodeResult_default_def Let_def LowerCase_def EBC_HRP_def)
  show "\<not> IsValidEBCAddress ''''" "\<not> IsValidEBCAddress ''invalid''"
    using d by (simp_all add: IsValidEBCAddress_def EBCAddress_FromString_def 1 2 DecodeResult_default_def)
  show "\<not> IsValidEBCAddress ''bc1qw508d6qejxtdg4y5r3zarvary0c5xw7kv8f3t4''"
    using d 3 by (simp add: IsValidEBCAddress_def EBCAddress_FromString_def Let_def)
qed

text \<open>What \<^verbatim>\<open>FromString\<close> returns is valid, from a Bech32m string with the prefix \<^verbatim>\<open>ebc1\<close>, or
  it is the default-constructed address.\<close>

lemma FromString_valid_or_default:
  "EBCAddress_FromString str = EBCAddress_default
   \<or> (EBCAddress_IsValid (EBCAddress_FromString str)
       \<and> dec_encoding (bech32_Decode str 90) = BECH32M \<and> dec_hrp (bech32_Decode str 90) = EBC_HRP)"
  by (auto simp add: EBCAddress_FromString_def Let_def split: option.splits)

text \<open>
  C2 at a failing input. The string below is a well-formed Bech32m address with prefix
  \<^verbatim>\<open>ebc1\<close> whose payload has version byte 0, algorithm byte 7 and twenty zero bytes. 7 is
  not the tag of an algorithm, yet \<^verbatim>\<open>FromString\<close> returns a populated address that
  \<^verbatim>\<open>IsValid()\<close> accepts, not the invalid sentinel: \<^verbatim>\<open>IsValid\<close> compares the algorithm with
  \<^verbatim>\<open>UNKNOWN\<close> only.
\<close>

theorem FromString_accepts_unrecognized_algorithm:
  "EBCAddress_FromString ''ebc11qqrsqqqqqqqqqqqqqqqqqqqqqqqqqqqqqqqqz6pz9g''
     = \<lparr>m_version = PQ_PUBKEY, m_data = replicate 20 0, m_algorithm = 7\<rparr>
   \<and> m_algorithm (EBCAddress_FromString ''ebc11qqrsqqqqqqqqqqqqqqqqqqqqqqqqqqqqqqqqz6pz9g'') \<noteq> DILITHIUM3
   \<and> m_algorithm (EBCAddress_FromString ''ebc11qqrsqqqqqqqqqqqqqqqqqqqqqqqqqqqqqqqqz6pz9g'') \<noteq> FALCON512
   \<and> GetOQSAlgorithmName (m_algorithm (EBCAddress_FromString ''ebc11qqrsqqqqqqqqqqqqqqqqqqqqqqqqqqqqqqqqz6pz9g'')) = None
   \<and> EBCAddress_FromString ''ebc11qqrsqqqqqqqqqqqqqqqqqqqqqqqqqqqqqqqqz6pz9g'' \<noteq> EBCAddress_default
   \<and> IsValidEBCAddress ''ebc11qqrsqqqqqqqqqqqqqqqqqqqqqqqqqqqqqqqqz6pz9g''"
proof -
  have v: "EBCAddress_IsValid addr_unrecognized"
    by (simp add: addr_unrecognized_def EBCAddress_IsValid_def PQ_PUBKEY_def UNKNOWN_def
        EBC_PUBKEY_HASH_SIZE_def)
  have "EBCAddress_FromString (EBCAddress_ToString addr_unrecognized) = addr_unrecognized"
    by (rule FromString_ToString_byte [OF v]) (simp_all add: addr_unrecognized_def)
  then have f: "EBCAddress_FromString ''ebc11qqrsqqqqqqqqqqqqqqqqqqqqqqqqqqqqqqqqz6pz9g'' = addr_unrecognized"
    by (simp only: ToString_addr_unrecognized)
  show ?thesis
    unfolding IsValidEBCAddress_def f using v
    by (simp add: addr_unrecognized_def EBCAddress_default_def GetOQSAlgorithmName_def
        DILITHIUM3_def FALCON512_def UNKNOWN_def)
qed

theorem FromString_accepts_unrecognized_algorithm_witness:
  "EBCAddress_IsValid (EBCAddress_FromString ''ebc11qqrsqqqqqqqqqqqqqqqqqqqqqqqqqqqqqqqqz6pz9g'')
   \<and> m_algorithm (EBCAddress_FromString ''ebc11qqrsqqqqqqqqqqqqqqqqqqqqqqqqqqqqqqqqz6pz9g'') = 7
   \<and> m_version (EBCAddress_FromString ''ebc11qqrsqqqqqqqqqqqqqqqqqqqqqqqqqqqqqqqqz6pz9g'') = PQ_PUBKEY
   \<and> length (m_data (EBCAddress_FromString ''ebc11qqrsqqqqqqqqqqqqqqqqqqqqqqqqqqqqqqqqz6pz9g'')) = 20"
proof -
  have f: "EBCAddress_FromString ''ebc11qqrsqqqqqqqqqqqqqqqqqqqqqqqqqqqqqqqqz6pz9g''
             = \<lparr>m_version = PQ_PUBKEY, m_data = replicate 20 0, m_algorithm = 7\<rparr>"
    and v: "IsValidEBCAddress ''ebc11qqrsqqqqqqqqqqqqqqqqqqqqqqqqqqqqqqqqz6pz9g''"
    using FromString_accepts_unrecognized_algorithm by blast+
  show ?thesis
    using v unfolding IsValidEBCAddress_def by (simp add: f)
qed

lemma ToString_addr_dilithium:
  "EBCAddress_ToString addr_dilithium = ''ebc11qqqqqqqqqqqqqqqqqqqqqqqqqqqqqqqqqqqqy0hxw6''"
proof -
  have v: "EBCAddress_IsValid addr_dilithium"
    by (simp add: addr_dilithium_def EBCAddress_IsValid_def PQ_PUBKEY_def UNKNOWN_def
        DILITHIUM3_def EBC_PUBKEY_HASH_SIZE_def)
  have cb: "ConvertBits 8 5 True ([m_version addr_dilithium, word_of_int (m_algorithm addr_dilithium)]
              @ m_data addr_dilithium)
     = Some [0, 0, 0, 0, 0, 0, 0, 0, 0, 0, 0, 0, 0, 0, 0, 0, 0, 0, 0, 0, 0, 0, 0, 0, 0, 0, 0, 0, 0, 0, 0, 0, 0, 0, 0, 0]"
    by (simp add: addr_dilithium_def PQ_PUBKEY_def DILITHIUM3_def replicate_20 ConvertBits_def
        ConvertBits_emit_done ConvertBits_emit_more Suc_fold)
  have cs: "CreateChecksum BECH32M EBC_HRP [0, 0, 0, 0, 0, 0, 0, 0, 0, 0, 0, 0, 0, 0, 0, 0, 0, 0, 0, 0, 0, 0, 0, 0, 0, 0, 0, 0, 0, 0, 0, 0, 0, 0, 0, 0]
     = [4, 15, 23, 6, 14, 26]"
    by (simp add: CreateChecksum_def PreparePolynomialCoefficients_def EBC_HRP_def PolyMod_def
        PolyMod_step_def Let_def CHECKSUM_SIZE_def EncodingConstant_def upt_rec replicate_6)
  have enc: "bech32_Encode BECH32M EBC_HRP [0, 0, 0, 0, 0, 0, 0, 0, 0, 0, 0, 0, 0, 0, 0, 0, 0, 0, 0, 0, 0, 0, 0, 0, 0, 0, 0, 0, 0, 0, 0, 0, 0, 0, 0, 0]
     = ''ebc11qqqqqqqqqqqqqqqqqqqqqqqqqqqqqqqqqqqqy0hxw6''"
    by (simp only: bech32_Encode_def Let_def cs) (simp add: CHARSET_def EBC_HRP_def)
  show ?thesis
    unfolding EBCAddress_ToString_def Let_def cb using v by (simp add: enc)
qed

text \<open>
  The algorithm is written as one byte, \<^verbatim>\<open>static_cast<uint8_t>(m_algorithm)\<close>: the address
  with algorithm 256 has the string of the address with algorithm 0.
\<close>

lemma ToString_addr_wide: "EBCAddress_ToString addr_wide = EBCAddress_ToString addr_dilithium"
proof -
  have low: "(256 :: byte) = 0"
    by simp
  show ?thesis
    by (simp add: low EBCAddress_ToString_def EBCAddress_IsValid_def addr_wide_def
        addr_dilithium_def DILITHIUM3_def UNKNOWN_def)
qed

text \<open>
  C4 as stated fails in its round trip, on a valid address: \<^verbatim>\<open>IsValid\<close>
  accepts the algorithm \<^verbatim>\<open>static_cast<pq::PQAlgorithm>(256)\<close>, \<^verbatim>\<open>ToString\<close> writes its low byte
  0, and \<^verbatim>\<open>FromString\<close> returns the address with algorithm \<^verbatim>\<open>DILITHIUM3\<close>.
\<close>

theorem FromString_ToString_counterexample:
  "EBCAddress_IsValid \<lparr>m_version = PQ_PUBKEY, m_data = replicate 20 0, m_algorithm = 256\<rparr>
   \<and> EBCAddress_ToString \<lparr>m_version = PQ_PUBKEY, m_data = replicate 20 0, m_algorithm = 256\<rparr>
       = ''ebc11qqqqqqqqqqqqqqqqqqqqqqqqqqqqqqqqqqqqy0hxw6''
   \<and> EBCAddress_FromString ''ebc11qqqqqqqqqqqqqqqqqqqqqqqqqqqqqqqqqqqqy0hxw6''
       = \<lparr>m_version = PQ_PUBKEY, m_data = replicate 20 0, m_algorithm = 0\<rparr>
   \<and> EBCAddress_FromString
         (EBCAddress_ToString \<lparr>m_version = PQ_PUBKEY, m_data = replicate 20 0, m_algorithm = 256\<rparr>)
       \<noteq> \<lparr>m_version = PQ_PUBKEY, m_data = replicate 20 0, m_algorithm = 256\<rparr>"
proof -
  have v: "EBCAddress_IsValid addr_wide"
    by (simp add: addr_wide_def EBCAddress_IsValid_def PQ_PUBKEY_def UNKNOWN_def
        EBC_PUBKEY_HASH_SIZE_def)
  have vd: "EBCAddress_IsValid addr_dilithium"
    by (simp add: addr_dilithium_def EBCAddress_IsValid_def PQ_PUBKEY_def UNKNOWN_def
        DILITHIUM3_def EBC_PUBKEY_HASH_SIZE_def)
  have s: "EBCAddress_ToString addr_wide = ''ebc11qqqqqqqqqqqqqqqqqqqqqqqqqqqqqqqqqqqqy0hxw6''"
    by (simp only: ToString_addr_wide ToString_addr_dilithium)
  have "EBCAddress_FromString (EBCAddress_ToString addr_dilithium) = addr_dilithium"
    by (rule FromString_ToString_byte [OF vd]) (simp_all add: addr_dilithium_def DILITHIUM3_def)
  then have f: "EBCAddress_FromString ''ebc11qqqqqqqqqqqqqqqqqqqqqqqqqqqqqqqqqqqqy0hxw6''
                  = addr_dilithium"
    by (simp only: ToString_addr_dilithium)
  have n: "addr_dilithium \<noteq> addr_wide"
    by (simp add: addr_dilithium_def addr_wide_def DILITHIUM3_def)
  have w: "\<lparr>m_version = PQ_PUBKEY, m_data = replicate 20 0, m_algorithm = 256\<rparr> = addr_wide"
    by (simp add: addr_wide_def)
  have d: "\<lparr>m_version = PQ_PUBKEY, m_data = replicate 20 0, m_algorithm = 0\<rparr> = addr_dilithium"
    by (simp add: addr_dilithium_def DILITHIUM3_def)
  show ?thesis
    unfolding w d s f using v n by simp
qed

text \<open>
  C4. For every valid address whose algorithm fits the algorithm byte of the encoding
  (a value from 0 to 255, as every enumerator of \<^verbatim>\<open>PQAlgorithm\<close> is and as every address
  that \<^verbatim>\<open>FromString\<close> returns has), \<^verbatim>\<open>FromString(ToString(v))\<close> is valid and equal to \<open>v\<close>.
  For every valid address, replacing one of the six checksum characters (the last six of
  the string) by any other character gives a string that \<^verbatim>\<open>FromString\<close> decodes to the
  invalid address.
\<close>

theorem FromString_ToString:
  "EBCAddress_IsValid a \<Longrightarrow>
     (0 \<le> m_algorithm a \<and> m_algorithm a < 256
        \<longrightarrow> EBCAddress_FromString (EBCAddress_ToString a) = a
            \<and> EBCAddress_IsValid (EBCAddress_FromString (EBCAddress_ToString a)))
     \<and> (length (EBCAddress_ToString a) - 6 \<le> i \<and> i < length (EBCAddress_ToString a)
          \<and> c \<noteq> EBCAddress_ToString a ! i
        \<longrightarrow> EBCAddress_FromString ((EBCAddress_ToString a)[i := c]) = EBCAddress_default)"
proof -
  assume v: "EBCAddress_IsValid a"
  have rt: "EBCAddress_FromString (EBCAddress_ToString a) = a"
    if "0 \<le> m_algorithm a" "m_algorithm a < 256"
    using that by (intro FromString_ToString_byte [OF v])
  have alt: "EBCAddress_FromString ((EBCAddress_ToString a)[i := c]) = EBCAddress_default"
    if i: "length (EBCAddress_ToString a) - 6 \<le> i" "i < length (EBCAddress_ToString a)"
      and c: "c \<noteq> EBCAddress_ToString a ! i"
  proof -
    obtain G where g: "EBCAddress_ToString a = bech32_Encode BECH32M EBC_HRP G"
      "\<forall>v \<in> set G. unat v < 32" "length G = 36 \<or> length G = 55"
      using ToString_valid [OF v] by metis
    have "length G \<le> 79" using g(3) by auto
    then have "dec_encoding (bech32_Decode ((bech32_Encode BECH32M EBC_HRP G)[i := c]) 90) \<noteq> BECH32M"
      using i c unfolding g(1) by (intro Decode_altered_checksum [OF g(2)])
    then show ?thesis
      unfolding g(1) by (simp add: EBCAddress_FromString_def Let_def)
  qed
  show ?thesis using rt v alt by simp
qed

theorem FromString_ToString_witness:
  "EBCAddress_IsValid addr_falcon
   \<and> 0 \<le> m_algorithm addr_falcon \<and> m_algorithm addr_falcon < 256
   \<and> EBCAddress_ToString addr_falcon = ''ebc11qqqsqqqqqqqqqqqqqqqqqqqqqqqqqqqqqqqqsrxjpw''
   \<and> EBCAddress_FromString ''ebc11qqqsqqqqqqqqqqqqqqqqqqqqqqqqqqqqqqqqsrxjpw'' = addr_falcon
   \<and> EBCAddress_FromString ''ebc11qqqsqqqqqqqqqqqqqqqqqqqqqqqqqqqqqqqqsrxjpq'' = EBCAddress_default"
proof -
  have v: "EBCAddress_IsValid addr_falcon"
    by (simp add: addr_falcon_def EBCAddress_IsValid_def PQ_PUBKEY_def UNKNOWN_def FALCON512_def
        EBC_PUBKEY_HASH_SIZE_def)
  have e: "0 \<le> m_algorithm addr_falcon" "m_algorithm addr_falcon < 256"
    by (simp_all add: addr_falcon_def FALCON512_def)
  have u: "''ebc11qqqsqqqqqqqqqqqqqqqqqqqqqqqqqqqqqqqqsrxjpq''
             = (''ebc11qqqsqqqqqqqqqqqqqqqqqqqqqqqqqqqqqqqqsrxjpw'')[46 := CHR ''q'']"
    by simp
  show ?thesis
    using v e FromString_ToString [OF v, of 46 "CHR ''q''"]
    unfolding ToString_addr_falcon u [symmetric] by simp
qed
section \<open>Properties of the phase\<close>

lemma phase_rank_inj: "phase_rank x = phase_rank y \<Longrightarrow> x = y"
  by (cases x; cases y) simp_all





lemma CEBCParams_ordered: "params_ordered CEBCParams_phase"
  by (simp add: params_ordered_def CEBCParams_phase_def)

lemma CEBCParams_phases:
  "phase CEBCParams_phase (- 1) = PRE_ACTIVATION"
  "phase CEBCParams_phase 0 = GRACE_DUAL_SIG"
  "phase CEBCParams_phase 4319 = GRACE_DUAL_SIG"
  "phase CEBCParams_phase 4320 = PQ_ONLY"
  "phase CEBCParams_phase 25919 = PQ_ONLY"
  "phase CEBCParams_phase 25920 = SWEEP_ELIGIBLE"
  by (simp_all add: phase_def CEBCParams_phase_def)



end
